theory Spec2Isabelle
  imports Main "HOL-Library.Sublist" "HOL-Library.AList" "HOL-Library.Char_ord"
    "HOL-Library.List_Lexorder"
begin

section \<open>The build command of snowman (cmd/build.go)\<close>

text \<open>
  The command reads \<^verbatim>\<open>snowman.yaml\<close>, creates the directory \<^verbatim>\<open>site\<close>, copies
  the static files, discovers includes and views, and for every view runs its SPARQL
  query and renders one page (or one page per result row). The file system, the
  working directory and the trace of calls that leave the process are the state that
  the model threads through; the libraries the command calls but does not define
  (YAML, URL parsing, the SPARQL client, the \<^verbatim>\<open>views\<close> package) are
  fields of a record of capabilities.
\<close>

subsection \<open>Strings\<close>

text \<open>
  \<^verbatim>\<open>strings.Replace(s, old, new, 1)\<close>: the first occurrence of \<^verbatim>\<open>old\<close> in
  \<^verbatim>\<open>s\<close>, scanning from the left, is replaced by \<^verbatim>\<open>new\<close>; without an
  occurrence the string is returned as it is. An empty \<^verbatim>\<open>old\<close> matches at the
  start of the string.
\<close>

fun Replace1 :: "string \<Rightarrow> string \<Rightarrow> string \<Rightarrow> string" where
  "Replace1 [] old new = (if old = [] then new else [])"
| "Replace1 (c # s) old new =
     (if prefix old (c # s) then new @ drop (length old) (c # s)
      else c # Replace1 s old new)"

subsection \<open>Data\<close>

text \<open>\<^verbatim>\<open>type siteConfig struct { Endpoint string }\<close>\<close>

record siteConfig =
  Endpoint :: string

text \<open>
  A cell of a SPARQL result (the client library's \<^verbatim>\<open>binding\<close>): the kind of the
  value and its text. A result row is a Go map from variable names to cells; reading
  a missing key of a Go map gives the zero value of the cell type, whose fields are
  empty strings.
\<close>

record binding =
  Type :: string
  Value :: string

type_synonym row = "string \<rightharpoonup> binding"

definition index :: "row \<Rightarrow> string \<Rightarrow> binding" where
  "index r k = (case r k of None \<Rightarrow> \<lparr>Type = [], Value = []\<rparr> | Some b \<Rightarrow> b)"

text \<open>
  The fields of \<^verbatim>\<open>views.View\<close> that the command reads. \<^verbatim>\<open>MultipageVariableHook\<close>
  is a \<^verbatim>\<open>*string\<close>: \<open>None\<close> is the nil pointer.
\<close>

record viewConfig =
  Output :: string

record view =
  ViewConfig :: viewConfig
  Sparql :: string
  MultipageVariableHook :: "string option"

text \<open>The second argument of \<^verbatim>\<open>RenderPage\<close>: one row, or the whole result.\<close>

datatype renderData = Row row | Rows "row list"

text \<open>
  Errors. The first five are the file system's; \<open>Other\<close> carries the message of an
  error raised by one of the libraries.
\<close>

datatype err = ENOENT | EEXIST | ENOTDIR | EISDIR | EINVAL | Other string

text \<open>
  A file system: paths, spelled as the program spells them, with the node found there.
  A node is a directory, a regular file with its bytes, or anything else (a symbolic
  link, a device), which is neither \<^verbatim>\<open>IsDir\<close> nor \<^verbatim>\<open>IsRegular\<close>.
\<close>

datatype node = Directory | Regular string | Irregular

type_synonym fs = "(string \<times> node) list"

text \<open>
  What leaves the process, in order: a query sent to the endpoint, a call of
  \<^verbatim>\<open>view.RenderPage\<close>, a line printed on standard output.
\<close>

datatype event =
    Queried string string
  | Rendered view string renderData
  | Printed string

record world =
  wd :: "err + string"
  files :: fs
  trace :: "event list"

text \<open>
  The capabilities: functions of other packages, which this file calls. The query
  client answers a query text sent to an endpoint with rows or an error; rendering a
  page reads and writes the file system and may fail.
\<close>

record env =
  Unmarshal :: "string \<Rightarrow> siteConfig \<Rightarrow> err + siteConfig"
  ParseRequestURI :: "string \<Rightarrow> err option"
  DiscoverViews :: "string list \<Rightarrow> fs \<Rightarrow> err + view list"
  NewRepo :: "string \<Rightarrow> err option"
  Query :: "string \<Rightarrow> string \<Rightarrow> err + row list"
  RenderPage :: "view \<Rightarrow> string \<Rightarrow> renderData \<Rightarrow> fs \<Rightarrow> err option \<times> fs"

text \<open>
  Modelled from the spec: \<^verbatim>\<open>utils.ErrorExit(message, err)\<close> is not in this file;
  by the spec a failure gives "a single descriptive message naming the failing stage
  and the underlying cause, followed by non-zero exit". The value the command returns
  is \<open>None\<close> for \<^verbatim>\<open>return nil\<close>, the message and the cause for a return through
  \<^verbatim>\<open>utils.ErrorExit\<close>, and \<open>Panic\<close> for a run-time panic.
\<close>

datatype failure = ErrorExit string err | Panic

definition exitStatus :: "failure option \<Rightarrow> nat" where
  "exitStatus r = (case r of None \<Rightarrow> 0 | Some _ \<Rightarrow> 1)"

subsection \<open>The configuration\<close>

text \<open>\<^verbatim>\<open>func (c *siteConfig) Parse(data []byte) error\<close>\<close>

definition Parse :: "env \<Rightarrow> string \<Rightarrow> siteConfig \<Rightarrow> err + siteConfig" where
  "Parse E data c = Unmarshal E data c"

text \<open>\<^verbatim>\<open>func (c siteConfig) IsValid() error\<close>\<close>

definition IsValid :: "env \<Rightarrow> siteConfig \<Rightarrow> err option" where
  "IsValid E c = (case ParseRequestURI E (Endpoint c) of Some e \<Rightarrow> Some e | None \<Rightarrow> None)"

definition logEvent :: "event \<Rightarrow> world \<Rightarrow> world" where
  "logEvent e w = w\<lparr>trace := trace w @ [e]\<rparr>"

subsection \<open>The file system calls\<close>

text \<open>
  The calls of \<^verbatim>\<open>os\<close>, \<^verbatim>\<open>io\<close>, \<^verbatim>\<open>ioutil\<close> and \<^verbatim>\<open>path/filepath\<close> that the
  command makes, on the file system above. A call fails for the reasons the file
  system's shape gives (a missing file, a file where a directory is needed); failures
  of the device and permissions are outside the model. The path \<^verbatim>\<open>.\<close> is the
  working directory.
\<close>

definition Stat :: "fs \<Rightarrow> string \<Rightarrow> err + node" where
  "Stat f p =
     (if p = ''.'' then Inr Directory
      else case map_of f p of None \<Rightarrow> Inl ENOENT | Some n \<Rightarrow> Inr n)"

definition IsNotExist :: "err \<Rightarrow> bool" where
  "IsNotExist e = (e = ENOENT)"

definition IsDir :: "node \<Rightarrow> bool" where
  "IsDir n = (n = Directory)"

definition IsRegular :: "node \<Rightarrow> bool" where
  "IsRegular n = (case n of Regular _ \<Rightarrow> True | _ \<Rightarrow> False)"

definition ReadFile :: "fs \<Rightarrow> string \<Rightarrow> err + string" where
  "ReadFile f p =
     (case Stat f p of
        Inl e \<Rightarrow> Inl e
      | Inr (Regular bs) \<Rightarrow> Inr bs
      | Inr Directory \<Rightarrow> Inl EISDIR
      | Inr Irregular \<Rightarrow> Inl EINVAL)"

text \<open>
  \<^verbatim>\<open>filepath.Clean\<close> and \<^verbatim>\<open>filepath.Dir\<close>, for paths whose elements are names
  (not empty, not \<^verbatim>\<open>.\<close> or \<^verbatim>\<open>..\<close>), as the paths are that \<^verbatim>\<open>filepath.Walk\<close>
  joins from a root and directory entries: cleaning only removes trailing
  separators. \<^verbatim>\<open>Dir\<close> cleans the path up to and including its last separator.
\<close>

definition stripSlashes :: "string \<Rightarrow> string" where
  "stripSlashes p = rev (dropWhile (\<lambda>c. c = CHR ''/'') (rev p))"

definition Clean :: "string \<Rightarrow> string" where
  "Clean p = (if p = [] then ''.'' else if stripSlashes p = [] then ''/'' else stripSlashes p)"

definition upToLastSlash :: "string \<Rightarrow> string" where
  "upToLastSlash p = rev (dropWhile (\<lambda>c. c \<noteq> CHR ''/'') (rev p))"

definition Dir :: "string \<Rightarrow> string" where
  "Dir p = Clean (upToLastSlash p)"

text \<open>
  \<^verbatim>\<open>os.Mkdir\<close>: the path must not exist and its parent must be a directory.
\<close>

definition Mkdir :: "string \<Rightarrow> fs \<Rightarrow> err option \<times> fs" where
  "Mkdir p f =
     (if p = [] then (Some ENOENT, f)
      else case Stat f p of
        Inr _ \<Rightarrow> (Some EEXIST, f)
      | Inl _ \<Rightarrow>
          (case Stat f (Dir p) of
             Inr Directory \<Rightarrow> (None, f @ [(p, Directory)])
           | Inr _ \<Rightarrow> (Some ENOTDIR, f)
           | Inl e \<Rightarrow> (Some e, f)))"

text \<open>
  \<^verbatim>\<open>os.MkdirAll\<close>, as the library writes it: a directory at the path is success, any
  other node there an error; otherwise the parent (the path before its last element,
  when that is longer than one byte) is made first and then the path itself.
\<close>

definition mkdirParent :: "string \<Rightarrow> string option" where
  "mkdirParent p =
     (let j = upToLastSlash (stripSlashes p)
      in if length j > 1 then Some (butlast j) else None)"

lemma length_upToLastSlash: "length (upToLastSlash p) \<le> length p"
  unfolding upToLastSlash_def
  by (metis length_dropWhile_le length_rev)

lemma length_stripSlashes: "length (stripSlashes p) \<le> length p"
  unfolding stripSlashes_def
  by (metis length_dropWhile_le length_rev)

lemma mkdirParent_shorter: "mkdirParent p = Some q \<Longrightarrow> length q < length p"
proof -
  assume a: "mkdirParent p = Some q"
  let ?j = "upToLastSlash (stripSlashes p)"
  from a have j: "length ?j > 1" and q: "q = butlast ?j"
    by (auto simp: mkdirParent_def Let_def split: if_splits)
  have "length ?j \<le> length p"
    using length_upToLastSlash [of "stripSlashes p"] length_stripSlashes [of p] by simp
  with j q show ?thesis by simp
qed

function MkdirAll :: "string \<Rightarrow> fs \<Rightarrow> err option \<times> fs" where
  "MkdirAll p f =
     (case Stat f p of
        Inr n \<Rightarrow> (if IsDir n then (None, f) else (Some ENOTDIR, f))
      | Inl _ \<Rightarrow>
          (case (case mkdirParent p of Some q \<Rightarrow> MkdirAll q f | None \<Rightarrow> (None, f)) of
             (Some e, f1) \<Rightarrow> (Some e, f1)
           | (None, f1) \<Rightarrow>
               (case Mkdir p f1 of
                  (None, f2) \<Rightarrow> (None, f2)
                | (Some e, f2) \<Rightarrow>
                    (case Stat f2 p of
                       Inr n \<Rightarrow> (if IsDir n then (None, f2) else (Some e, f2))
                     | Inl _ \<Rightarrow> (Some e, f2)))))"
  by pat_completeness auto
termination
  by (relation "measure (\<lambda>(p, f). length p)") (auto dest: mkdirParent_shorter)

declare MkdirAll.simps [simp del]

text \<open>\<^verbatim>\<open>os.Open\<close>: the path must exist.\<close>

definition Open :: "string \<Rightarrow> fs \<Rightarrow> err option" where
  "Open p f = (case Stat f p of Inl e \<Rightarrow> Some e | Inr _ \<Rightarrow> None)"

text \<open>
  \<^verbatim>\<open>os.Create\<close>: a regular file at the path is truncated; a missing one is created
  empty when its parent is a directory. Creating over a node that is neither a file
  nor a directory is taken as an error.
\<close>

definition Create :: "string \<Rightarrow> fs \<Rightarrow> err option \<times> fs" where
  "Create p f =
     (if p = [] then (Some ENOENT, f)
      else case Stat f p of
        Inr Directory \<Rightarrow> (Some EISDIR, f)
      | Inr Irregular \<Rightarrow> (Some EINVAL, f)
      | Inr (Regular _) \<Rightarrow> (None, AList.update p (Regular []) f)
      | Inl _ \<Rightarrow>
          (case Stat f (Dir p) of
             Inr Directory \<Rightarrow> (None, AList.update p (Regular []) f)
           | Inr _ \<Rightarrow> (Some ENOTDIR, f)
           | Inl e \<Rightarrow> (Some e, f)))"

text \<open>
  \<^verbatim>\<open>io.Copy(dst, src)\<close> on the two open files, named by their paths: the bytes of
  the source, as they are when the copy runs, become the bytes of the target.
\<close>

definition Copy :: "string \<Rightarrow> string \<Rightarrow> fs \<Rightarrow> err option \<times> fs" where
  "Copy dst src f =
     (case Stat f src of
        Inr (Regular bs) \<Rightarrow> (None, AList.update dst (Regular bs) f)
      | Inr Directory \<Rightarrow> (Some EISDIR, f)
      | Inr Irregular \<Rightarrow> (Some EINVAL, f)
      | Inl e \<Rightarrow> (Some e, f))"

text \<open>
  \<^verbatim>\<open>filepath.Walk(root, fn)\<close>. The walk calls \<^verbatim>\<open>fn\<close> on the root and then, when
  the root is a directory, on everything below it, a directory before its entries and
  the entries of a directory in the order of their names; a root that cannot be
  examined is passed with a nil \<^verbatim>\<open>info\<close> and the error. The first error that
  \<^verbatim>\<open>fn\<close> returns ends the walk and is its result. The visits are listed from the
  file system as it is when the walk starts: of the two callbacks of this file one
  writes nothing, and what the other writes while it walks a directory \<^verbatim>\<open>static\<close>
  goes to paths that begin with \<^verbatim>\<open>site/\<close>.
\<close>

fun splitSlash :: "string \<Rightarrow> string list" where
  "splitSlash [] = [[]]"
| "splitSlash (c # s) =
     (if c = CHR ''/'' then [] # splitSlash s
      else case splitSlash s of [] \<Rightarrow> [[c]] | x # xs \<Rightarrow> (c # x) # xs)"

definition below :: "fs \<Rightarrow> string \<Rightarrow> string list" where
  "below f root =
     sort_key splitSlash (remdups (filter (\<lambda>p. prefix (root @ ''/'') p) (map fst f)))"

type_synonym visit = "string \<times> node option \<times> err option"

definition visits :: "fs \<Rightarrow> string \<Rightarrow> visit list" where
  "visits f root =
     (case Stat f root of
        Inl e \<Rightarrow> [(root, None, Some e)]
      | Inr n \<Rightarrow>
          (root, Some n, None) #
          (if IsDir n then map (\<lambda>p. (p, map_of f p, None)) (below f root) else []))"

datatype status = Succeeded | Returned err | Panicked

fun Walk :: "(visit \<Rightarrow> 's \<Rightarrow> status \<times> 's) \<Rightarrow> visit list \<Rightarrow> 's \<Rightarrow> status \<times> 's" where
  "Walk fn [] s = (Succeeded, s)"
| "Walk fn (x # xs) s =
     (case fn x s of
        (Succeeded, s') \<Rightarrow> Walk fn xs s'
      | (r, s') \<Rightarrow> (r, s'))"

subsection \<open>Includes and static files\<close>

text \<open>
  The callback of \<^verbatim>\<open>DiscoverIncludes\<close> (lines 37 to 45) and the function itself:
  the paths below \<^verbatim>\<open>templates/includes\<close> that are not directories, in the order
  of the walk.
\<close>

definition includeFn :: "visit \<Rightarrow> string list \<Rightarrow> status \<times> string list" where
  "includeFn x paths =
     (case x of (path, info, err) \<Rightarrow>
        (case err of
           Some e \<Rightarrow> (Returned e, paths)
         | None \<Rightarrow>
             (case info of
                None \<Rightarrow> (Panicked, paths)
              | Some n \<Rightarrow> (Succeeded, if \<not> IsDir n then paths @ [path] else paths))))"

definition DiscoverIncludes :: "fs \<Rightarrow> status \<times> string list" where
  "DiscoverIncludes f =
     (case Walk includeFn (visits f ''templates/includes'') [] of
        (Succeeded, paths) \<Rightarrow> (Succeeded, paths)
      | (r, _) \<Rightarrow> (r, []))"

text \<open>
  The callback of \<^verbatim>\<open>CopyStatic\<close> (lines 54 to 80). It reads \<^verbatim>\<open>info\<close> before it
  looks at the error of the walk, so a nil \<^verbatim>\<open>info\<close> is a panic. The \<^verbatim>\<open>err\<close>
  of the copying steps is declared inside the \<^verbatim>\<open>if\<close>; the final \<^verbatim>\<open>return err\<close>
  returns the error the walk passed in.
\<close>

definition copyFn :: "visit \<Rightarrow> world \<Rightarrow> status \<times> world" where
  "copyFn x w =
     (case x of (path, info, err) \<Rightarrow>
        (case info of
           None \<Rightarrow> (Panicked, w)
         | Some n \<Rightarrow>
             if IsRegular n then
               (let newPath = Replace1 path ''static/'' ''site/'' in
                case MkdirAll (Dir newPath) (files w) of
                  (Some e, f1) \<Rightarrow> (Returned e, w\<lparr>files := f1\<rparr>)
                | (None, f1) \<Rightarrow>
                    (case Open path f1 of
                       Some e \<Rightarrow> (Returned e, w\<lparr>files := f1\<rparr>)
                     | None \<Rightarrow>
                         (case Create newPath f1 of
                            (Some e, f2) \<Rightarrow> (Returned e, w\<lparr>files := f2\<rparr>)
                          | (None, f2) \<Rightarrow>
                              (case Copy newPath path f2 of
                                 (Some e, f3) \<Rightarrow> (Returned e, w\<lparr>files := f3\<rparr>)
                               | (None, f3) \<Rightarrow>
                                   (case err of
                                      Some e \<Rightarrow> Returned e
                                    | None \<Rightarrow> Succeeded,
                                    logEvent (Printed (''Copied static file to: '' @ newPath))
                                      (w\<lparr>files := f3\<rparr>))))))
             else (case err of Some e \<Rightarrow> Returned e | None \<Rightarrow> Succeeded, w)))"

definition CopyStatic :: "world \<Rightarrow> status \<times> world" where
  "CopyStatic w = Walk copyFn (visits (files w) ''static'') w"

subsection \<open>Rendering the views (lines 137 to 161)\<close>

text \<open>\<^verbatim>\<open>var siteDir string = "site/"\<close> (line 113)\<close>

definition siteDir :: string where
  "siteDir = ''site/''"

text \<open>A call of \<^verbatim>\<open>view.RenderPage(outputPath, data)\<close>: traced, then run on the files.\<close>

definition callRenderPage :: "env \<Rightarrow> view \<Rightarrow> string \<Rightarrow> renderData \<Rightarrow> world \<Rightarrow> err option \<times> world" where
  "callRenderPage E v outputPath d w =
     (let w1 = logEvent (Rendered v outputPath d) w;
          (r, fs') = RenderPage E v outputPath d (files w1)
      in (r, w1\<lparr>files := fs'\<rparr>))"

text \<open>
  The path of the page of one row (line 150); the token that is replaced is
  \<^verbatim>\<open>"{{" + hook + "}}"\<close>.
\<close>

definition placeholder :: "string \<Rightarrow> string" where
  "placeholder hook = ''{{'' @ hook @ ''}}''"

definition rowOutputPath :: "view \<Rightarrow> string \<Rightarrow> row \<Rightarrow> string" where
  "rowOutputPath v hook r =
     siteDir @ Replace1 (Output (ViewConfig v)) (placeholder hook) (Value (index r hook))"

text \<open>The loop over the rows of a multipage view (lines 149 to 154).\<close>

fun renderRows :: "env \<Rightarrow> view \<Rightarrow> string \<Rightarrow> row list \<Rightarrow> world \<Rightarrow> failure option \<times> world" where
  "renderRows E v hook [] w = (None, w)"
| "renderRows E v hook (r # rs) w =
     (let outputPath = rowOutputPath v hook r in
      case callRenderPage E v outputPath (Row r) w of
        (Some e, w') \<Rightarrow> (Some (ErrorExit (''Failed to render page at '' @ outputPath) e), w')
      | (None, w') \<Rightarrow> renderRows E v hook rs w')"

text \<open>The pages of one view, from its result rows (lines 148 to 159).\<close>

definition renderView :: "env \<Rightarrow> view \<Rightarrow> row list \<Rightarrow> world \<Rightarrow> failure option \<times> world" where
  "renderView E v results w =
     (case MultipageVariableHook v of
        Some hook \<Rightarrow> renderRows E v hook results w
      | None \<Rightarrow>
          (case callRenderPage E v (siteDir @ Output (ViewConfig v)) (Rows results) w of
             (Some e, w') \<Rightarrow>
               (Some (ErrorExit (''Failed to render page at '' @ siteDir @ Output (ViewConfig v)) e), w')
           | (None, w') \<Rightarrow> (None, w')))"

text \<open>The body of the loop over the views (lines 138 to 159).\<close>

definition buildView :: "env \<Rightarrow> siteConfig \<Rightarrow> view \<Rightarrow> world \<Rightarrow> failure option \<times> world" where
  "buildView E config v w =
     (case NewRepo E (Endpoint config) of
        Some e \<Rightarrow> (Some (ErrorExit ''Failed to connect to SPARQL endpoint.'' e), w)
      | None \<Rightarrow>
          (let w1 = logEvent (Queried (Endpoint config) (Sparql v)) w in
           case Query E (Endpoint config) (Sparql v) of
             Inl e \<Rightarrow> (Some (ErrorExit ''SPARQL query failed.'' e), w1)
           | Inr results \<Rightarrow> renderView E v results w1))"

text \<open>The loop over the discovered views (lines 137 to 161).\<close>

fun buildViews :: "env \<Rightarrow> siteConfig \<Rightarrow> view list \<Rightarrow> world \<Rightarrow> failure option \<times> world" where
  "buildViews E config [] w = (None, w)"
| "buildViews E config (v # vs) w =
     (case buildView E config v w of
        (Some e, w') \<Rightarrow> (Some e, w')
      | (None, w') \<Rightarrow> buildViews E config vs w')"

subsection \<open>The command (lines 89 to 164)\<close>

text \<open>
  Lines 90 to 111: the working directory, then \<^verbatim>\<open>snowman.yaml\<close> located, read,
  parsed and validated. Nothing is written.
\<close>

definition loadConfig :: "env \<Rightarrow> world \<Rightarrow> failure + siteConfig" where
  "loadConfig E w =
     (case wd w of
        Inl e \<Rightarrow> Inl (ErrorExit ''Failed to get the current working directory.'' e)
      | Inr currentDirectory \<Rightarrow>
          (case Stat (files w) (currentDirectory @ ''/snowman.yaml'') of
             Inl e \<Rightarrow>
               Inl (ErrorExit ''Unable to locate snowman.yaml in the current working directory.'' e)
           | Inr _ \<Rightarrow>
               (case ReadFile (files w) (currentDirectory @ ''/snowman.yaml'') of
                  Inl e \<Rightarrow> Inl (ErrorExit ''Failed to read snowman.yaml.'' e)
                | Inr data \<Rightarrow>
                    (case Parse E data \<lparr>Endpoint = []\<rparr> of
                       Inl e \<Rightarrow> Inl (ErrorExit ''Failed to parse snowman.yaml.'' e)
                     | Inr config \<Rightarrow>
                         (case IsValid E config of
                            Some e \<Rightarrow> Inl (ErrorExit ''Failed to validate snowman.yaml.'' e)
                          | None \<Rightarrow> Inr config)))))"

text \<open>
  Lines 119 to 125: without a \<^verbatim>\<open>static\<close> directory a line is printed and
  nothing is copied; otherwise \<^verbatim>\<open>CopyStatic\<close> runs.
\<close>

definition staticStep :: "world \<Rightarrow> status \<times> world" where
  "staticStep w =
     (case Stat (files w) ''static'' of
        Inl e \<Rightarrow>
          (if IsNotExist e
           then (Succeeded, logEvent (Printed ''Failed to locate static files. Skipping...'') w)
           else CopyStatic w)
      | Inr _ \<Rightarrow> CopyStatic w)"

text \<open>Lines 119 to 163, with the configuration and the new \<^verbatim>\<open>site\<close> directory.\<close>

definition buildSite :: "env \<Rightarrow> siteConfig \<Rightarrow> world \<Rightarrow> failure option \<times> world" where
  "buildSite E config w =
     (case staticStep w of
        (Returned e, w1) \<Rightarrow> (Some (ErrorExit ''Failed to copy static files.'' e), w1)
      | (Panicked, w1) \<Rightarrow> (Some Panic, w1)
      | (Succeeded, w1) \<Rightarrow>
          (case DiscoverIncludes (files w1) of
             (Returned e, _) \<Rightarrow> (Some (ErrorExit ''Failed to discover layouts.'' e), w1)
           | (Panicked, _) \<Rightarrow> (Some Panic, w1)
           | (Succeeded, layouts) \<Rightarrow>
               (case DiscoverViews E layouts (files w1) of
                  Inl e \<Rightarrow> (Some (ErrorExit ''Failed to discover views.'' e), w1)
                | Inr discoveredViews \<Rightarrow> buildViews E config discoveredViews w1)))"

definition buildCmd :: "env \<Rightarrow> world \<Rightarrow> failure option \<times> world" where
  "buildCmd E w =
     (case loadConfig E w of
        Inl x \<Rightarrow> (Some x, w)
      | Inr config \<Rightarrow>
          (case Mkdir ''site'' (files w) of
             (Some e, f1) \<Rightarrow>
               (Some (ErrorExit ''Failed to create site directory.'' e), w\<lparr>files := f1\<rparr>)
           | (None, f1) \<Rightarrow> buildSite E config (w\<lparr>files := f1\<rparr>)))"

subsection \<open>A small site, for examples\<close>

text \<open>
  Two views, a few result rows, stand-ins for the libraries (the renderer writes the
  titles of its rows to the output path) and a working directory with a configuration,
  static files and one include.
\<close>

definition cell :: "string \<Rightarrow> binding" where
  "cell s = \<lparr>Type = ''literal'', Value = s\<rparr>"

definition postsView :: view where
  "postsView =
     \<lparr>ViewConfig = \<lparr>Output = ''posts/{{slug}}.html''\<rparr>, Sparql = ''SELECT ?slug ?title'',
      MultipageVariableHook = Some ''slug''\<rparr>"

definition indexView :: view where
  "indexView =
     \<lparr>ViewConfig = \<lparr>Output = ''index.html''\<rparr>, Sparql = ''SELECT ?a'',
      MultipageVariableHook = None\<rparr>"

definition rowX :: row where
  "rowX = [''slug'' \<mapsto> cell ''x'', ''title'' \<mapsto> cell ''First'']"

definition rowX2 :: row where
  "rowX2 = [''slug'' \<mapsto> cell ''x'', ''title'' \<mapsto> cell ''Second'']"

definition rowY :: row where
  "rowY = [''slug'' \<mapsto> cell ''y'', ''title'' \<mapsto> cell ''Third'']"

definition rowNoSlug :: row where
  "rowNoSlug = [''title'' \<mapsto> cell ''Lost'']"

definition rowA1 :: row where
  "rowA1 = [''a'' \<mapsto> cell ''1'']"

definition rowA2 :: row where
  "rowA2 = [''a'' \<mapsto> cell ''2'']"

definition pageOf :: "renderData \<Rightarrow> string" where
  "pageOf d =
     (case d of
        Row r \<Rightarrow> Value (index r ''title'')
      | Rows rs \<Rightarrow> concat (map (\<lambda>r. Value (index r ''title'')) rs))"

definition exampleEnv :: "row list \<Rightarrow> env" where
  "exampleEnv rows =
     \<lparr>Unmarshal = (\<lambda>data c. Inr (c\<lparr>Endpoint := data\<rparr>)),
      ParseRequestURI = (\<lambda>s. if s = [] then Some (Other ''empty url'') else None),
      DiscoverViews = (\<lambda>layouts f. Inr [postsView, indexView]),
      NewRepo = (\<lambda>endpoint. None),
      Query = (\<lambda>endpoint q. Inr rows),
      RenderPage = (\<lambda>v p d f. (None, AList.update p (Regular (pageOf d)) f))\<rparr>"

definition exampleFiles :: fs where
  "exampleFiles =
     [(''/home/site/snowman.yaml'', Regular ''https://example.org/sparql''),
      (''static'', Directory),
      (''static/css'', Directory),
      (''static/css/main.css'', Regular ''body{}''),
      (''static/robots.txt'', Regular ''User-agent: *''),
      (''templates'', Directory),
      (''templates/includes'', Directory),
      (''templates/includes/header.html'', Regular ''<h1>'')]"

definition exampleWorld :: world where
  "exampleWorld = \<lparr>wd = Inr ''/home/site'', files = exampleFiles, trace = []\<rparr>"

text \<open>
  The same stand-ins with a renderer that cannot write one path, and the
  configuration that the example \<^verbatim>\<open>snowman.yaml\<close> holds.
\<close>

definition failingEnv :: "row list \<Rightarrow> string \<Rightarrow> env" where
  "failingEnv rows bad =
     (exampleEnv rows)\<lparr>RenderPage :=
        (\<lambda>v p d f. if p = bad then (Some (Other ''write failed''), f)
                    else (None, AList.update p (Regular (pageOf d)) f))\<rparr>"

definition exampleConfig :: siteConfig where
  "exampleConfig = \<lparr>Endpoint = ''https://example.org/sparql''\<rparr>"

subsection \<open>Notions for the properties\<close>

text \<open>
  The calls that the loop over the views is to make when nothing fails, in the order
  the spec gives (views in the order of discovery, the rows of a view in row order):
  for each view its query and then its pages. A view whose query fails has no pages;
  without a connection nothing is sent.
\<close>

definition viewCalls :: "env \<Rightarrow> siteConfig \<Rightarrow> view \<Rightarrow> event list" where
  "viewCalls E config v =
     (case NewRepo E (Endpoint config) of
        Some _ \<Rightarrow> []
      | None \<Rightarrow>
          Queried (Endpoint config) (Sparql v) #
          (case Query E (Endpoint config) (Sparql v) of
             Inl _ \<Rightarrow> []
           | Inr results \<Rightarrow>
               (case MultipageVariableHook v of
                  Some hook \<Rightarrow> map (\<lambda>r. Rendered v (rowOutputPath v hook r) (Row r)) results
                | None \<Rightarrow> [Rendered v (siteDir @ Output (ViewConfig v)) (Rows results)])))"

definition schedule :: "env \<Rightarrow> siteConfig \<Rightarrow> view list \<Rightarrow> event list" where
  "schedule E config vs = concat (map (viewCalls E config) vs)"

text \<open>
  The directory below a root is tree-shaped when every path below it is made of names
  (no element of the path is empty) and lies in a directory.
\<close>

definition treeBelow :: "fs \<Rightarrow> string \<Rightarrow> bool" where
  "treeBelow f root \<longleftrightarrow>
     (\<forall>p \<in> set (below f root). [] \<notin> set (splitSlash p) \<and> Stat f (Dir p) = Inr Directory)"

text \<open>
  While \<^verbatim>\<open>CopyStatic\<close> runs, the files are the files \<open>f\<close> of the start outside
  \<^verbatim>\<open>site/\<close>, and what stands at \<^verbatim>\<open>site/r\<close> is what stands at
  \<^verbatim>\<open>static/r\<close> in \<open>f\<close>, a directory or a regular file.
\<close>

definition mirrors :: "fs \<Rightarrow> fs \<Rightarrow> bool" where
  "mirrors f g \<longleftrightarrow>
     (\<forall>p. \<not> prefix ''site/'' p \<longrightarrow> map_of g p = map_of f p) \<and>
     (\<forall>r n. map_of g (''site/'' @ r) = Some n \<longrightarrow>
        n \<noteq> Irregular \<and> map_of f (''static/'' @ r) = Some n)"

definition keeps :: "fs \<Rightarrow> fs \<Rightarrow> bool" where
  "keeps g g' \<longleftrightarrow> (\<forall>q m. map_of g q = Some m \<longrightarrow> map_of g' q = Some m)"

text \<open>
  Where a path leads: its elements after \<^verbatim>\<open>.\<close> and \<^verbatim>\<open>..\<close> have been
  resolved as the file system resolves them, an empty element and \<^verbatim>\<open>.\<close> dropped
  and \<^verbatim>\<open>..\<close> taking back the element before it (symbolic links aside). A path
  leads below \<^verbatim>\<open>site\<close> when what is left begins with \<^verbatim>\<open>site\<close> and goes on.
\<close>

definition pathElems :: "string \<Rightarrow> string list" where
  "pathElems p =
     foldl (\<lambda>acc s.
        if s = [] \<or> s = ''.'' then acc
        else if s = ''..'' then (if acc \<noteq> [] \<and> last acc \<noteq> ''..'' then butlast acc else acc @ [s])
        else acc @ [s]) [] (splitSlash p)"

definition belowSite :: "string \<Rightarrow> bool" where
  "belowSite p = (case pathElems p of x # y # _ \<Rightarrow> x = ''site'' | _ \<Rightarrow> False)"

text \<open>
  A view whose output pattern steps out of its directory, and the stand-ins with this
  view as the only one discovered.
\<close>

definition escapeView :: view where
  "escapeView =
     \<lparr>ViewConfig = \<lparr>Output = ''../escape.html''\<rparr>, Sparql = ''SELECT ?a'',
      MultipageVariableHook = None\<rparr>"

definition escapeEnv :: "row list \<Rightarrow> env" where
  "escapeEnv rows = (exampleEnv rows)\<lparr>DiscoverViews := (\<lambda>layouts f. Inr [escapeView])\<rparr>"

section \<open>Properties\<close>

subsection \<open>Replacing the first occurrence\<close>

lemma Replace1_prefix:
  "prefix old s \<Longrightarrow> Replace1 s old new = new @ drop (length old) s"
  by (cases s) auto

lemma Replace1_first:
  "\<forall>i<length a. \<not> prefix old (drop i (a @ old @ b)) \<Longrightarrow>
   Replace1 (a @ old @ b) old new = a @ new @ b"
proof (induction a)
  case Nil
  show ?case using Replace1_prefix [of old "old @ b" new] by simp
next
  case (Cons c a)
  from Cons.prems have "\<not> prefix old (drop 0 ((c # a) @ old @ b))" by blast
  then have np: "\<not> prefix old (c # a @ old @ b)" by simp
  have "\<forall>i<length a. \<not> prefix old (drop i (a @ old @ b))"
  proof (intro allI impI)
    fix i assume "i < length a"
    then have "Suc i < length (c # a)" by simp
    with Cons.prems have "\<not> prefix old (drop (Suc i) ((c # a) @ old @ b))" by blast
    then show "\<not> prefix old (drop i (a @ old @ b))" by simp
  qed
  from Cons.IH [OF this] np show ?case by simp
qed

lemma Replace1_none:
  "\<forall>i\<le>length s. \<not> prefix old (drop i s) \<Longrightarrow> Replace1 s old new = s"
proof (induction s)
  case Nil
  then show ?case by auto
next
  case (Cons c s)
  from Cons.prems have "\<not> prefix old (drop 0 (c # s))" by blast
  then have np: "\<not> prefix old (c # s)" by simp
  have "\<forall>i\<le>length s. \<not> prefix old (drop i s)"
  proof (intro allI impI)
    fix i assume "i \<le> length s"
    then have "Suc i \<le> length (c # s)" by simp
    with Cons.prems have "\<not> prefix old (drop (Suc i) (c # s))" by blast
    then show "\<not> prefix old (drop i s)" by simp
  qed
  from Cons.IH [OF this] np show ?case by simp
qed

subsection \<open>The trace of the row loop\<close>

lemma callRenderPage_trace:
  "trace (snd (callRenderPage E v p d w)) = trace w @ [Rendered v p d]"
  by (simp add: callRenderPage_def logEvent_def Let_def split: prod.splits)

lemma callRenderPage_fst:
  "fst (callRenderPage E v p d w) = fst (RenderPage E v p d (files w))"
  by (simp add: callRenderPage_def logEvent_def Let_def split: prod.splits)

lemma renderRows_trace_success:
  "fst (renderRows E v hook rs w) = None \<Longrightarrow>
   trace (snd (renderRows E v hook rs w)) =
     trace w @ map (\<lambda>r. Rendered v (rowOutputPath v hook r) (Row r)) rs"
proof (induction rs arbitrary: w)
  case Nil
  then show ?case by simp
next
  case (Cons r rs)
  obtain e w1 where c: "callRenderPage E v (rowOutputPath v hook r) (Row r) w = (e, w1)"
    by (cases "callRenderPage E v (rowOutputPath v hook r) (Row r) w")
  from c have t: "trace w1 = trace w @ [Rendered v (rowOutputPath v hook r) (Row r)]"
    using callRenderPage_trace [of E v "rowOutputPath v hook r" "Row r" w] by simp
  show ?case
  proof (cases e)
    case None
    with c Cons.prems have "fst (renderRows E v hook rs w1) = None" by simp
    from Cons.IH [OF this] None c t show ?thesis by simp
  next
    case (Some a)
    with c Cons.prems show ?thesis by simp
  qed
qed

lemma renderRows_trace_prefix:
  "\<exists>n\<le>length rs. trace (snd (renderRows E v hook rs w)) =
     trace w @ map (\<lambda>r. Rendered v (rowOutputPath v hook r) (Row r)) (take n rs)"
proof (induction rs arbitrary: w)
  case Nil
  then show ?case by simp
next
  case (Cons r rs)
  obtain e w1 where c: "callRenderPage E v (rowOutputPath v hook r) (Row r) w = (e, w1)"
    by (cases "callRenderPage E v (rowOutputPath v hook r) (Row r) w")
  from c have t: "trace w1 = trace w @ [Rendered v (rowOutputPath v hook r) (Row r)]"
    using callRenderPage_trace [of E v "rowOutputPath v hook r" "Row r" w] by simp
  show ?case
  proof (cases e)
    case None
    from Cons.IH [of w1] obtain n where n: "n \<le> length rs"
      "trace (snd (renderRows E v hook rs w1)) =
         trace w1 @ map (\<lambda>r. Rendered v (rowOutputPath v hook r) (Row r)) (take n rs)"
      by blast
    with None c t show ?thesis
      by (intro exI [of _ "Suc n"]) simp
  next
    case (Some a)
    with c t show ?thesis
      by (intro exI [of _ "Suc 0"]) simp
  qed
qed

lemma renderRows_all_succeed:
  "\<forall>p d f. fst (RenderPage E v p d f) = None \<Longrightarrow> fst (renderRows E v hook rs w) = None"
proof (induction rs arbitrary: w)
  case Nil
  then show ?case by simp
next
  case (Cons r rs)
  obtain e w1 where c: "callRenderPage E v (rowOutputPath v hook r) (Row r) w = (e, w1)"
    by (cases "callRenderPage E v (rowOutputPath v hook r) (Row r) w")
  with Cons.prems have "e = None"
    using callRenderPage_fst [of E v "rowOutputPath v hook r" "Row r" w] by simp
  with c Cons show ?case by simp
qed

lemma renderRows_failure:
  "renderRows E v hook rs w = (Some x, w') \<Longrightarrow>
   \<exists>r\<in>set rs. \<exists>e. x = ErrorExit (''Failed to render page at '' @ rowOutputPath v hook r) e"
proof (induction rs arbitrary: w)
  case Nil
  then show ?case by simp
next
  case (Cons r rs)
  obtain e w1 where c: "callRenderPage E v (rowOutputPath v hook r) (Row r) w = (e, w1)"
    by (cases "callRenderPage E v (rowOutputPath v hook r) (Row r) w")
  show ?case
  proof (cases e)
    case None
    with c Cons.prems have "renderRows E v hook rs w1 = (Some x, w')" by simp
    from Cons.IH [OF this] show ?thesis by auto
  next
    case (Some a)
    with c Cons.prems show ?thesis by auto
  qed
qed

lemma callRenderPage_eq:
  "callRenderPage E v p d w =
     (case RenderPage E v p d (files w) of
        (r, f') \<Rightarrow> (r, w\<lparr>trace := trace w @ [Rendered v p d], files := f'\<rparr>))"
  by (simp add: callRenderPage_def logEvent_def Let_def split: prod.splits)

text \<open>
  What the loop does with the row after rows that have all been rendered: it calls
  \<^verbatim>\<open>RenderPage\<close> with the row's path and the row, on the files as they are then;
  an error of the call is the result of the loop, in the world the call left, and
  otherwise the loop goes on with the rows that follow.
\<close>

lemma renderRows_step:
  "renderRows E v hook rs1 w = (None, w1) \<Longrightarrow>
   renderRows E v hook (rs1 @ r # rs2) w =
     (case RenderPage E v (rowOutputPath v hook r) (Row r) (files w1) of
        (Some e, f') \<Rightarrow>
          (Some (ErrorExit (''Failed to render page at '' @ rowOutputPath v hook r) e),
           w1\<lparr>trace := trace w1 @ [Rendered v (rowOutputPath v hook r) (Row r)], files := f'\<rparr>)
      | (None, f') \<Rightarrow>
          renderRows E v hook rs2
            (w1\<lparr>trace := trace w1 @ [Rendered v (rowOutputPath v hook r) (Row r)], files := f'\<rparr>))"
proof (induction rs1 arbitrary: w)
  case Nil
  then show ?case
    by (simp add: callRenderPage_eq Let_def split: prod.splits option.splits)
next
  case (Cons a rs1)
  obtain e w0 where c: "callRenderPage E v (rowOutputPath v hook a) (Row a) w = (e, w0)"
    by (cases "callRenderPage E v (rowOutputPath v hook a) (Row a) w")
  show ?case
  proof (cases e)
    case None
    with c Cons.prems have "renderRows E v hook rs1 w0 = (None, w1)" by (simp add: Let_def)
    from Cons.IH [OF this] c None show ?thesis by (simp add: Let_def)
  next
    case (Some x)
    with c Cons.prems show ?thesis by (simp add: Let_def)
  qed
qed

text \<open>
  A failure of the loop is the failure of one call of \<^verbatim>\<open>RenderPage\<close>: the rows
  before it have been rendered, the call for the row has returned the error, and the
  loop has returned it in the world that the call left.
\<close>

lemma renderRows_genuine:
  "renderRows E v hook rs w = (Some x, w') \<Longrightarrow>
   \<exists>rs1 r rs2 w1 e f'.
     rs = rs1 @ r # rs2 \<and> renderRows E v hook rs1 w = (None, w1) \<and>
     RenderPage E v (rowOutputPath v hook r) (Row r) (files w1) = (Some e, f') \<and>
     x = ErrorExit (''Failed to render page at '' @ rowOutputPath v hook r) e \<and>
     w' = w1\<lparr>trace := trace w1 @ [Rendered v (rowOutputPath v hook r) (Row r)], files := f'\<rparr>"
proof (induction rs arbitrary: w)
  case Nil
  then show ?case by simp
next
  case (Cons a rs)
  obtain e0 f0 where rp: "RenderPage E v (rowOutputPath v hook a) (Row a) (files w) = (e0, f0)"
    by (cases "RenderPage E v (rowOutputPath v hook a) (Row a) (files w)")
  let ?w0 = "w\<lparr>trace := trace w @ [Rendered v (rowOutputPath v hook a) (Row a)], files := f0\<rparr>"
  have c: "callRenderPage E v (rowOutputPath v hook a) (Row a) w = (e0, ?w0)"
    using rp by (simp add: callRenderPage_eq)
  show ?case
  proof (cases e0)
    case None
    with c Cons.prems have "renderRows E v hook rs ?w0 = (Some x, w')" by (simp add: Let_def)
    from Cons.IH [OF this] obtain rs1 r rs2 w1 e f' where h:
      "rs = rs1 @ r # rs2" "renderRows E v hook rs1 ?w0 = (None, w1)"
      "RenderPage E v (rowOutputPath v hook r) (Row r) (files w1) = (Some e, f')"
      "x = ErrorExit (''Failed to render page at '' @ rowOutputPath v hook r) e"
      "w' = w1\<lparr>trace := trace w1 @ [Rendered v (rowOutputPath v hook r) (Row r)], files := f'\<rparr>"
      by blast
    have "a # rs = (a # rs1) @ r # rs2" using h(1) by simp
    moreover have "renderRows E v hook (a # rs1) w = (None, w1)"
      using c None h(2) by (simp add: Let_def)
    ultimately show ?thesis using h(3,4,5) by blast
  next
    case (Some e)
    with c Cons.prems have x: "x = ErrorExit (''Failed to render page at '' @ rowOutputPath v hook a) e"
      and w': "w' = ?w0" by (simp_all add: Let_def)
    have "a # rs = [] @ a # rs" by simp
    moreover have "renderRows E v hook [] w = (None, w)" by simp
    ultimately show ?thesis using rp Some x w' by blast
  qed
qed

lemma rowOutputPath_eq:
  "rowOutputPath v hook r =
     ''site/'' @ Replace1 (Output (ViewConfig v)) (placeholder hook) (Value (index r hook))"
  by (simp add: rowOutputPath_def siteDir_def)

lemma renderView_hook:
  "MultipageVariableHook v = Some hook \<Longrightarrow> renderView E v rs w = renderRows E v hook rs w"
  by (simp add: renderView_def)

text \<open>
  C3, as the code has it. For a view with a multipage variable the loop goes through
  the result rows in row order and calls \<^verbatim>\<open>RenderPage\<close> once for each row until
  a call fails: after rows that have all been rendered, the next row is handed to
  \<^verbatim>\<open>RenderPage\<close>, and an error of that call ends the loop at once, with the
  error as the result and no call for any later row; otherwise the loop goes on with
  the next row. So a failure of the loop is the failure of the call for one row, with
  exactly one call for that row and each row before it, and when no call fails there
  is exactly one call per row. The output path of a row's call is \<^verbatim>\<open>site/\<close>
  followed by the output pattern in which the first occurrence of the token
  \<^verbatim>\<open>{{hook}}\<close> is replaced by the row's value for the variable, byte for byte
  (what stands before and after the leftmost token is kept); the data of the call is
  that row alone.
\<close>

theorem multipage_job_per_row:
  assumes "MultipageVariableHook v = Some hook"
  shows "(\<forall>r. rowOutputPath v hook r =
             ''site/'' @ Replace1 (Output (ViewConfig v)) (placeholder hook)
               (Value (index r hook))) \<and>
    (\<forall>w0. renderView E v [] w0 = (None, w0)) \<and>
    (\<forall>rs1 r rs2 w1.
       renderView E v rs1 w = (None, w1) \<longrightarrow>
       renderView E v (rs1 @ r # rs2) w =
         (case RenderPage E v (rowOutputPath v hook r) (Row r) (files w1) of
            (Some e, f') \<Rightarrow>
              (Some (ErrorExit (''Failed to render page at '' @ rowOutputPath v hook r) e),
               w1\<lparr>trace := trace w1 @ [Rendered v (rowOutputPath v hook r) (Row r)],
                   files := f'\<rparr>)
          | (None, f') \<Rightarrow>
              renderView E v rs2
                (w1\<lparr>trace := trace w1 @ [Rendered v (rowOutputPath v hook r) (Row r)],
                    files := f'\<rparr>))) \<and>
    (\<forall>x w'. renderView E v rs w = (Some x, w') \<longrightarrow>
       (\<exists>rs1 r rs2 w1 e f'.
          rs = rs1 @ r # rs2 \<and> renderView E v rs1 w = (None, w1) \<and>
          RenderPage E v (rowOutputPath v hook r) (Row r) (files w1) = (Some e, f') \<and>
          x = ErrorExit (''Failed to render page at '' @ rowOutputPath v hook r) e \<and>
          w' = w1\<lparr>trace := trace w1 @ [Rendered v (rowOutputPath v hook r) (Row r)],
                   files := f'\<rparr> \<and>
          trace w' =
            trace w @ map (\<lambda>r. Rendered v (rowOutputPath v hook r) (Row r)) (rs1 @ [r]))) \<and>
    ((\<forall>p d f. fst (RenderPage E v p d f) = None) \<longrightarrow> fst (renderView E v rs w) = None) \<and>
    (fst (renderView E v rs w) = None \<longrightarrow>
       trace (snd (renderView E v rs w)) =
         trace w @
         map (\<lambda>r. Rendered v
               (''site/'' @ Replace1 (Output (ViewConfig v)) (placeholder hook)
                  (Value (index r hook)))
               (Row r)) rs) \<and>
    (\<exists>n\<le>length rs.
       trace (snd (renderView E v rs w)) =
         trace w @
         map (\<lambda>r. Rendered v
               (''site/'' @ Replace1 (Output (ViewConfig v)) (placeholder hook)
                  (Value (index r hook)))
               (Row r)) (take n rs)) \<and>
    (\<forall>a b r. Output (ViewConfig v) = a @ placeholder hook @ b \<and>
        (\<forall>i<length a. \<not> prefix (placeholder hook) (drop i (Output (ViewConfig v)))) \<longrightarrow>
        Replace1 (Output (ViewConfig v)) (placeholder hook) (Value (index r hook)) =
          a @ Value (index r hook) @ b) \<and>
    (\<forall>r c. r hook = Some c \<longrightarrow> Value (index r hook) = Value c)"
proof (intro conjI)
  note rv = renderView_hook [OF assms]
  show "\<forall>r. rowOutputPath v hook r =
      ''site/'' @ Replace1 (Output (ViewConfig v)) (placeholder hook) (Value (index r hook))"
    by (simp add: rowOutputPath_eq)
  show "\<forall>w0. renderView E v [] w0 = (None, w0)"
    by (simp add: rv)
  show "\<forall>rs1 r rs2 w1.
       renderView E v rs1 w = (None, w1) \<longrightarrow>
       renderView E v (rs1 @ r # rs2) w =
         (case RenderPage E v (rowOutputPath v hook r) (Row r) (files w1) of
            (Some e, f') \<Rightarrow>
              (Some (ErrorExit (''Failed to render page at '' @ rowOutputPath v hook r) e),
               w1\<lparr>trace := trace w1 @ [Rendered v (rowOutputPath v hook r) (Row r)],
                   files := f'\<rparr>)
          | (None, f') \<Rightarrow>
              renderView E v rs2
                (w1\<lparr>trace := trace w1 @ [Rendered v (rowOutputPath v hook r) (Row r)],
                    files := f'\<rparr>))"
    unfolding rv using renderRows_step [of E v hook _ w] by blast
  show "\<forall>x w'. renderView E v rs w = (Some x, w') \<longrightarrow>
       (\<exists>rs1 r rs2 w1 e f'.
          rs = rs1 @ r # rs2 \<and> renderView E v rs1 w = (None, w1) \<and>
          RenderPage E v (rowOutputPath v hook r) (Row r) (files w1) = (Some e, f') \<and>
          x = ErrorExit (''Failed to render page at '' @ rowOutputPath v hook r) e \<and>
          w' = w1\<lparr>trace := trace w1 @ [Rendered v (rowOutputPath v hook r) (Row r)],
                   files := f'\<rparr> \<and>
          trace w' =
            trace w @ map (\<lambda>r. Rendered v (rowOutputPath v hook r) (Row r)) (rs1 @ [r]))"
    unfolding rv
  proof (intro allI impI)
    fix x w' assume "renderRows E v hook rs w = (Some x, w')"
    from renderRows_genuine [OF this] obtain rs1 r rs2 w1 e f' where h:
      "rs = rs1 @ r # rs2" "renderRows E v hook rs1 w = (None, w1)"
      "RenderPage E v (rowOutputPath v hook r) (Row r) (files w1) = (Some e, f')"
      "x = ErrorExit (''Failed to render page at '' @ rowOutputPath v hook r) e"
      "w' = w1\<lparr>trace := trace w1 @ [Rendered v (rowOutputPath v hook r) (Row r)], files := f'\<rparr>"
      by blast
    from h(2) have "fst (renderRows E v hook rs1 w) = None" by simp
    from renderRows_trace_success [OF this] h(2)
    have "trace w1 = trace w @ map (\<lambda>r. Rendered v (rowOutputPath v hook r) (Row r)) rs1"
      by simp
    with h(5) have "trace w' =
        trace w @ map (\<lambda>r. Rendered v (rowOutputPath v hook r) (Row r)) (rs1 @ [r])"
      by simp
    with h show "\<exists>rs1 r rs2 w1 e f'.
          rs = rs1 @ r # rs2 \<and> renderRows E v hook rs1 w = (None, w1) \<and>
          RenderPage E v (rowOutputPath v hook r) (Row r) (files w1) = (Some e, f') \<and>
          x = ErrorExit (''Failed to render page at '' @ rowOutputPath v hook r) e \<and>
          w' = w1\<lparr>trace := trace w1 @ [Rendered v (rowOutputPath v hook r) (Row r)],
                   files := f'\<rparr> \<and>
          trace w' =
            trace w @ map (\<lambda>r. Rendered v (rowOutputPath v hook r) (Row r)) (rs1 @ [r])"
      by blast
  qed
  show "(\<forall>p d f. fst (RenderPage E v p d f) = None) \<longrightarrow> fst (renderView E v rs w) = None"
    using assms renderRows_all_succeed [of E v hook rs w] by (simp add: renderView_def)
  have p: "\<And>r. rowOutputPath v hook r =
      ''site/'' @ Replace1 (Output (ViewConfig v)) (placeholder hook) (Value (index r hook))"
    by (simp add: rowOutputPath_def siteDir_def)
  show "fst (renderView E v rs w) = None \<longrightarrow>
       trace (snd (renderView E v rs w)) =
         trace w @
         map (\<lambda>r. Rendered v
               (''site/'' @ Replace1 (Output (ViewConfig v)) (placeholder hook)
                  (Value (index r hook)))
               (Row r)) rs"
    using assms renderRows_trace_success [of E v hook rs w]
    by (simp add: renderView_def p)
  show "\<exists>n\<le>length rs.
       trace (snd (renderView E v rs w)) =
         trace w @
         map (\<lambda>r. Rendered v
               (''site/'' @ Replace1 (Output (ViewConfig v)) (placeholder hook)
                  (Value (index r hook)))
               (Row r)) (take n rs)"
    using assms renderRows_trace_prefix [of rs E v hook w]
    by (simp add: renderView_def p)
  show "\<forall>a b r. Output (ViewConfig v) = a @ placeholder hook @ b \<and>
        (\<forall>i<length a. \<not> prefix (placeholder hook) (drop i (Output (ViewConfig v)))) \<longrightarrow>
        Replace1 (Output (ViewConfig v)) (placeholder hook) (Value (index r hook)) =
          a @ Value (index r hook) @ b"
  proof (intro allI impI)
    fix a b r
    assume h: "Output (ViewConfig v) = a @ placeholder hook @ b \<and>
        (\<forall>i<length a. \<not> prefix (placeholder hook) (drop i (Output (ViewConfig v))))"
    then have "\<forall>i<length a. \<not> prefix (placeholder hook) (drop i (a @ placeholder hook @ b))"
      by metis
    from Replace1_first [OF this] h
    show "Replace1 (Output (ViewConfig v)) (placeholder hook) (Value (index r hook)) =
          a @ Value (index r hook) @ b"
      by metis
  qed
  show "\<forall>r c. r hook = Some c \<longrightarrow> Value (index r hook) = Value c"
    by (simp add: index_def)
qed

subsection \<open>The example site at work\<close>

lemma postsView_paths:
  "rowOutputPath postsView ''slug'' rowX = ''site/posts/x.html''"
  "rowOutputPath postsView ''slug'' rowX2 = ''site/posts/x.html''"
  "rowOutputPath postsView ''slug'' rowY = ''site/posts/y.html''"
  "rowOutputPath postsView ''slug'' rowNoSlug = ''site/posts/.html''"
  by (simp_all add: rowOutputPath_def postsView_def rowX_def rowX2_def rowY_def rowNoSlug_def
      index_def cell_def siteDir_def placeholder_def)

lemma exampleEnv_renders: "fst (RenderPage (exampleEnv rows) v p d f) = None"
  by (simp add: exampleEnv_def)

lemma postsView_hook: "MultipageVariableHook postsView = Some ''slug''"
  by (simp add: postsView_def)

lemma exampleWorld_trace: "trace exampleWorld = []"
  by (simp add: exampleWorld_def)

lemma failingEnv_RenderPage:
  "RenderPage (failingEnv rows bad) v p d f =
     (if p = bad then (Some (Other ''write failed''), f)
      else (None, AList.update p (Regular (pageOf d)) f))"
  by (simp add: failingEnv_def)

text \<open>
  The theorem at work: the posts view with the rows for \<^verbatim>\<open>x\<close> and \<^verbatim>\<open>y\<close>,
  with a renderer that succeeds and with one that cannot write the page of \<^verbatim>\<open>x\<close>.
\<close>

theorem multipage_job_per_row_witness:
  "MultipageVariableHook postsView = Some ''slug'' \<and>
   fst (renderView (exampleEnv [rowX, rowY]) postsView [rowX, rowY] exampleWorld) = None \<and>
   trace (snd (renderView (exampleEnv [rowX, rowY]) postsView [rowX, rowY] exampleWorld)) =
     [Rendered postsView ''site/posts/x.html'' (Row rowX),
      Rendered postsView ''site/posts/y.html'' (Row rowY)] \<and>
   renderView (failingEnv [rowX, rowY] ''site/posts/x.html'') postsView [] exampleWorld =
     (None, exampleWorld) \<and>
   RenderPage (failingEnv [rowX, rowY] ''site/posts/x.html'') postsView ''site/posts/x.html''
       (Row rowX) (files exampleWorld) =
     (Some (Other ''write failed''), files exampleWorld) \<and>
   fst (renderView (failingEnv [rowX, rowY] ''site/posts/x.html'') postsView [rowX, rowY]
          exampleWorld) =
     Some (ErrorExit ''Failed to render page at site/posts/x.html'' (Other ''write failed'')) \<and>
   trace (snd (renderView (failingEnv [rowX, rowY] ''site/posts/x.html'') postsView [rowX, rowY]
                 exampleWorld)) =
     [Rendered postsView ''site/posts/x.html'' (Row rowX)]"
proof -
  let ?E = "exampleEnv [rowX, rowY]"
  let ?F = "failingEnv [rowX, rowY] ''site/posts/x.html''"
  have p: "''site/'' @ Replace1 (Output (ViewConfig postsView)) (placeholder ''slug'')
             (Value (index rowX ''slug'')) = ''site/posts/x.html''"
     "''site/'' @ Replace1 (Output (ViewConfig postsView)) (placeholder ''slug'')
             (Value (index rowY ''slug'')) = ''site/posts/y.html''"
    using postsView_paths by (simp_all add: rowOutputPath_def siteDir_def)
  note t = multipage_job_per_row [OF postsView_hook, of ?E exampleWorld "[rowX, rowY]"]
  from t have ok: "fst (renderView ?E postsView [rowX, rowY] exampleWorld) = None"
    using exampleEnv_renders by blast
  with t have tr: "trace (snd (renderView ?E postsView [rowX, rowY] exampleWorld)) =
     [Rendered postsView ''site/posts/x.html'' (Row rowX),
      Rendered postsView ''site/posts/y.html'' (Row rowY)]"
    using p by (simp add: exampleWorld_trace)
  note u = multipage_job_per_row [OF postsView_hook, of ?F exampleWorld "[rowX, rowY]"]
  from u have b: "renderView ?F postsView [] exampleWorld = (None, exampleWorld)"
    by blast
  have rp: "RenderPage ?F postsView ''site/posts/x.html'' (Row rowX) (files exampleWorld) =
      (Some (Other ''write failed''), files exampleWorld)"
    by (simp add: failingEnv_RenderPage)
  from u b have "renderView ?F postsView ([] @ rowX # [rowY]) exampleWorld =
         (case RenderPage ?F postsView (rowOutputPath postsView ''slug'' rowX) (Row rowX)
                 (files exampleWorld) of
            (Some e, f') \<Rightarrow>
              (Some (ErrorExit (''Failed to render page at '' @
                       rowOutputPath postsView ''slug'' rowX) e),
               exampleWorld\<lparr>trace := trace exampleWorld @
                     [Rendered postsView (rowOutputPath postsView ''slug'' rowX) (Row rowX)],
                   files := f'\<rparr>)
          | (None, f') \<Rightarrow>
              renderView ?F postsView [rowY]
                (exampleWorld\<lparr>trace := trace exampleWorld @
                     [Rendered postsView (rowOutputPath postsView ''slug'' rowX) (Row rowX)],
                    files := f'\<rparr>))"
    by blast
  then have f: "renderView ?F postsView [rowX, rowY] exampleWorld =
      (Some (ErrorExit ''Failed to render page at site/posts/x.html'' (Other ''write failed'')),
       exampleWorld\<lparr>trace := [Rendered postsView ''site/posts/x.html'' (Row rowX)],
         files := files exampleWorld\<rparr>)"
    by (simp add: postsView_paths rp exampleWorld_trace)
  from ok tr b rp f show ?thesis
    by (simp add: postsView_hook)
qed

text \<open>
  C3 as the claim words it has the output path equal to the substituted pattern, and
  one job for every row of every result. The path that \<^verbatim>\<open>RenderPage\<close> receives
  for the row \<^verbatim>\<open>x\<close> is \<^verbatim>\<open>site/posts/x.html\<close>, the substituted pattern is
  \<^verbatim>\<open>posts/x.html\<close>; and when the page of \<^verbatim>\<open>x\<close> cannot be written, the two
  rows \<^verbatim>\<open>x\<close> and \<^verbatim>\<open>y\<close> have one call between them.
\<close>

theorem multipage_path_counterexample:
  "trace (snd (renderView (exampleEnv [rowX, rowY]) postsView [rowX, rowY] exampleWorld)) =
     [Rendered postsView ''site/posts/x.html'' (Row rowX),
      Rendered postsView ''site/posts/y.html'' (Row rowY)] \<and>
   Replace1 (Output (ViewConfig postsView)) ''{{slug}}'' (Value (index rowX ''slug'')) = ''posts/x.html'' \<and>
   ''site/posts/x.html'' \<noteq> ''posts/x.html'' \<and>
   fst (renderView (failingEnv [rowX, rowY] ''site/posts/x.html'') postsView [rowX, rowY]
          exampleWorld) =
     Some (ErrorExit ''Failed to render page at site/posts/x.html'' (Other ''write failed'')) \<and>
   trace (snd (renderView (failingEnv [rowX, rowY] ''site/posts/x.html'') postsView [rowX, rowY]
                 exampleWorld)) =
     [Rendered postsView ''site/posts/x.html'' (Row rowX)] \<and>
   length [rowX, rowY] = 2"
proof -
  let ?F = "failingEnv [rowX, rowY] ''site/posts/x.html''"
  have "fst (renderRows (exampleEnv [rowX, rowY]) postsView ''slug'' [rowX, rowY] exampleWorld) = None"
    by (rule renderRows_all_succeed) (simp add: exampleEnv_renders)
  from renderRows_trace_success [OF this]
  have a: "trace (snd (renderView (exampleEnv [rowX, rowY]) postsView [rowX, rowY] exampleWorld)) =
     [Rendered postsView ''site/posts/x.html'' (Row rowX),
      Rendered postsView ''site/posts/y.html'' (Row rowY)]"
    by (simp add: renderView_def postsView_hook postsView_paths exampleWorld_trace)
  have b: "Replace1 (Output (ViewConfig postsView)) ''{{slug}}'' (Value (index rowX ''slug'')) = ''posts/x.html''"
    by (simp add: postsView_def rowX_def index_def cell_def)
  have "renderRows ?F postsView ''slug'' [] exampleWorld = (None, exampleWorld)" by simp
  from renderRows_step [OF this, of rowX "[rowY]"]
  have "renderRows ?F postsView ''slug'' [rowX, rowY] exampleWorld =
      (Some (ErrorExit ''Failed to render page at site/posts/x.html'' (Other ''write failed'')),
       exampleWorld\<lparr>trace := [Rendered postsView ''site/posts/x.html'' (Row rowX)],
         files := files exampleWorld\<rparr>)"
    by (simp add: postsView_paths failingEnv_RenderPage exampleWorld_trace)
  then have c: "renderView ?F postsView [rowX, rowY] exampleWorld =
      (Some (ErrorExit ''Failed to render page at site/posts/x.html'' (Other ''write failed'')),
       exampleWorld\<lparr>trace := [Rendered postsView ''site/posts/x.html'' (Row rowX)],
         files := files exampleWorld\<rparr>)"
    by (simp add: renderView_hook [OF postsView_hook])
  from a b c show ?thesis by simp
qed

subsection \<open>The page of a view without a multipage variable\<close>

text \<open>
  C4, as the code has it. For a view whose multipage variable is nil and any result
  rows, \<^verbatim>\<open>RenderPage\<close> is called exactly once, whether it then succeeds or not;
  the output path of the call is \<^verbatim>\<open>site/\<close> followed by the output pattern as
  it is, and the data of the call is the whole sequence of rows.
\<close>

theorem singlepage_one_job:
  assumes "MultipageVariableHook v = None"
  shows "trace (snd (renderView E v rs w)) =
           trace w @ [Rendered v (''site/'' @ Output (ViewConfig v)) (Rows rs)]"
proof -
  let ?p = "siteDir @ Output (ViewConfig v)"
  obtain e w1 where c: "callRenderPage E v ?p (Rows rs) w = (e, w1)"
    by (cases "callRenderPage E v ?p (Rows rs) w")
  then have t: "trace w1 = trace w @ [Rendered v ?p (Rows rs)]"
    using callRenderPage_trace [of E v ?p "Rows rs" w] by simp
  from assms c have "snd (renderView E v rs w) = w1"
    by (cases e) (simp_all add: renderView_def)
  with t show ?thesis by (simp add: siteDir_def)
qed

lemma indexView_fields:
  "MultipageVariableHook indexView = None" "Output (ViewConfig indexView) = ''index.html''"
  by (simp_all add: indexView_def)

text \<open>The single-page example of the spec: rows \<^verbatim>\<open>[{a:1},{a:2}]\<close>.\<close>

theorem singlepage_one_job_witness:
  "MultipageVariableHook indexView = None \<and>
   trace (snd (renderView (exampleEnv [rowA1, rowA2]) indexView [rowA1, rowA2] exampleWorld)) =
     [Rendered indexView ''site/index.html'' (Rows [rowA1, rowA2])]"
  using singlepage_one_job [OF indexView_fields(1), of "exampleEnv [rowA1, rowA2]"
      "[rowA1, rowA2]" exampleWorld]
  by (simp add: indexView_fields exampleWorld_trace)

text \<open>
  C4 as the claim words it has the output path equal to the output pattern. The one
  call for the index view has the path \<^verbatim>\<open>site/index.html\<close>; the pattern is
  \<^verbatim>\<open>index.html\<close>.
\<close>

theorem singlepage_path_counterexample:
  "trace (snd (renderView (exampleEnv [rowA1, rowA2]) indexView [rowA1, rowA2] exampleWorld)) =
     [Rendered indexView ''site/index.html'' (Rows [rowA1, rowA2])] \<and>
   Output (ViewConfig indexView) = ''index.html'' \<and>
   ''site/index.html'' \<noteq> ''index.html''"
proof -
  let ?E = "exampleEnv [rowA1, rowA2]"
  let ?p = "siteDir @ Output (ViewConfig indexView)"
  obtain e w1 where c: "callRenderPage ?E indexView ?p (Rows [rowA1, rowA2]) exampleWorld = (e, w1)"
    by (cases "callRenderPage ?E indexView ?p (Rows [rowA1, rowA2]) exampleWorld")
  then have t: "trace w1 = [Rendered indexView ?p (Rows [rowA1, rowA2])]"
    using callRenderPage_trace [of ?E indexView ?p "Rows [rowA1, rowA2]" exampleWorld]
    by (simp add: exampleWorld_trace)
  from c have "snd (renderView ?E indexView [rowA1, rowA2] exampleWorld) = w1"
    by (cases e) (simp_all add: renderView_def indexView_fields)
  with t show ?thesis by (simp add: siteDir_def indexView_fields)
qed

subsection \<open>Rows that collide, rows without the column\<close>

lemma renderRows_rendered:
  assumes "fst (renderRows E v hook rs w) = None" and "r \<in> set rs"
  shows "Rendered v (rowOutputPath v hook r) (Row r) \<in> set (trace (snd (renderRows E v hook rs w)))"
  using renderRows_trace_success [OF assms(1)] assms(2) by simp

text \<open>
  C1, as the code has it. The loop over the rows makes no check on the output paths.
  What it does with a row is decided by the call of \<^verbatim>\<open>RenderPage\<close> for that row
  alone: after rows that have all been rendered the row is handed to
  \<^verbatim>\<open>RenderPage\<close>; the loop fails exactly when that call fails, with the error of
  the call under the message \<^verbatim>\<open>Failed to render page at\<close> and the path, and
  otherwise goes on. So every failure of the loop is the failure of a call of
  \<^verbatim>\<open>RenderPage\<close>. For two rows that substitute to the same output path, the
  second somewhere after the first: when the rows up to the second have been rendered,
  the first row has had its call with that path, and the second row is handed to
  \<^verbatim>\<open>RenderPage\<close> with the same path; only the result of this call decides
  whether the loop fails there. A colliding pair alone never makes the loop fail.
\<close>

theorem collision_not_detected:
  assumes "MultipageVariableHook v = Some hook"
    and "rowOutputPath v hook r1 = rowOutputPath v hook r2"
  shows "(\<forall>w0. renderView E v [] w0 = (None, w0)) \<and>
    (\<forall>rs1 r rs2 w1.
       renderView E v rs1 w = (None, w1) \<longrightarrow>
       renderView E v (rs1 @ r # rs2) w =
         (case RenderPage E v (rowOutputPath v hook r) (Row r) (files w1) of
            (Some e, f') \<Rightarrow>
              (Some (ErrorExit (''Failed to render page at '' @ rowOutputPath v hook r) e),
               w1\<lparr>trace := trace w1 @ [Rendered v (rowOutputPath v hook r) (Row r)],
                   files := f'\<rparr>)
          | (None, f') \<Rightarrow>
              renderView E v rs2
                (w1\<lparr>trace := trace w1 @ [Rendered v (rowOutputPath v hook r) (Row r)],
                    files := f'\<rparr>))) \<and>
    (\<forall>x w'. renderView E v rs w = (Some x, w') \<longrightarrow>
       (\<exists>rs1 r rs2 w1 e f'.
          rs = rs1 @ r # rs2 \<and> renderView E v rs1 w = (None, w1) \<and>
          RenderPage E v (rowOutputPath v hook r) (Row r) (files w1) = (Some e, f') \<and>
          x = ErrorExit (''Failed to render page at '' @ rowOutputPath v hook r) e \<and>
          w' = w1\<lparr>trace := trace w1 @ [Rendered v (rowOutputPath v hook r) (Row r)],
                   files := f'\<rparr>)) \<and>
    (\<forall>w1. renderView E v (xs @ r1 # ys) w = (None, w1) \<longrightarrow>
       trace w1 =
         trace w @ map (\<lambda>r. Rendered v (rowOutputPath v hook r) (Row r)) xs @
         Rendered v (rowOutputPath v hook r1) (Row r1) #
         map (\<lambda>r. Rendered v (rowOutputPath v hook r) (Row r)) ys \<and>
       renderView E v (xs @ r1 # ys @ r2 # zs) w =
         (case RenderPage E v (rowOutputPath v hook r1) (Row r2) (files w1) of
            (Some e, f') \<Rightarrow>
              (Some (ErrorExit (''Failed to render page at '' @ rowOutputPath v hook r1) e),
               w1\<lparr>trace := trace w1 @ [Rendered v (rowOutputPath v hook r1) (Row r2)],
                   files := f'\<rparr>)
          | (None, f') \<Rightarrow>
              renderView E v zs
                (w1\<lparr>trace := trace w1 @ [Rendered v (rowOutputPath v hook r1) (Row r2)],
                    files := f'\<rparr>))) \<and>
    ((\<forall>p d f. fst (RenderPage E v p d f) = None) \<longrightarrow>
       fst (renderView E v (xs @ r1 # ys @ r2 # zs) w) = None \<and>
       trace (snd (renderView E v (xs @ r1 # ys @ r2 # zs) w)) =
         trace w @ map (\<lambda>r. Rendered v (rowOutputPath v hook r) (Row r)) xs @
         Rendered v (rowOutputPath v hook r1) (Row r1) #
         map (\<lambda>r. Rendered v (rowOutputPath v hook r) (Row r)) ys @
         Rendered v (rowOutputPath v hook r1) (Row r2) #
         map (\<lambda>r. Rendered v (rowOutputPath v hook r) (Row r)) zs)"
proof (intro conjI)
  note rv = renderView_hook [OF assms(1)]
  show "\<forall>w0. renderView E v [] w0 = (None, w0)"
    by (simp add: rv)
  show "\<forall>rs1 r rs2 w1.
       renderView E v rs1 w = (None, w1) \<longrightarrow>
       renderView E v (rs1 @ r # rs2) w =
         (case RenderPage E v (rowOutputPath v hook r) (Row r) (files w1) of
            (Some e, f') \<Rightarrow>
              (Some (ErrorExit (''Failed to render page at '' @ rowOutputPath v hook r) e),
               w1\<lparr>trace := trace w1 @ [Rendered v (rowOutputPath v hook r) (Row r)],
                   files := f'\<rparr>)
          | (None, f') \<Rightarrow>
              renderView E v rs2
                (w1\<lparr>trace := trace w1 @ [Rendered v (rowOutputPath v hook r) (Row r)],
                    files := f'\<rparr>))"
    unfolding rv using renderRows_step [of E v hook _ w] by blast
  show "\<forall>x w'. renderView E v rs w = (Some x, w') \<longrightarrow>
       (\<exists>rs1 r rs2 w1 e f'.
          rs = rs1 @ r # rs2 \<and> renderView E v rs1 w = (None, w1) \<and>
          RenderPage E v (rowOutputPath v hook r) (Row r) (files w1) = (Some e, f') \<and>
          x = ErrorExit (''Failed to render page at '' @ rowOutputPath v hook r) e \<and>
          w' = w1\<lparr>trace := trace w1 @ [Rendered v (rowOutputPath v hook r) (Row r)],
                   files := f'\<rparr>)"
    unfolding rv using renderRows_genuine [of E v hook rs w] by blast
  show "\<forall>w1. renderView E v (xs @ r1 # ys) w = (None, w1) \<longrightarrow>
       trace w1 =
         trace w @ map (\<lambda>r. Rendered v (rowOutputPath v hook r) (Row r)) xs @
         Rendered v (rowOutputPath v hook r1) (Row r1) #
         map (\<lambda>r. Rendered v (rowOutputPath v hook r) (Row r)) ys \<and>
       renderView E v (xs @ r1 # ys @ r2 # zs) w =
         (case RenderPage E v (rowOutputPath v hook r1) (Row r2) (files w1) of
            (Some e, f') \<Rightarrow>
              (Some (ErrorExit (''Failed to render page at '' @ rowOutputPath v hook r1) e),
               w1\<lparr>trace := trace w1 @ [Rendered v (rowOutputPath v hook r1) (Row r2)],
                   files := f'\<rparr>)
          | (None, f') \<Rightarrow>
              renderView E v zs
                (w1\<lparr>trace := trace w1 @ [Rendered v (rowOutputPath v hook r1) (Row r2)],
                    files := f'\<rparr>))"
    unfolding rv
  proof (intro allI impI conjI)
    fix w1 assume h: "renderRows E v hook (xs @ r1 # ys) w = (None, w1)"
    then have "fst (renderRows E v hook (xs @ r1 # ys) w) = None" by simp
    from renderRows_trace_success [OF this] h
    show "trace w1 =
         trace w @ map (\<lambda>r. Rendered v (rowOutputPath v hook r) (Row r)) xs @
         Rendered v (rowOutputPath v hook r1) (Row r1) #
         map (\<lambda>r. Rendered v (rowOutputPath v hook r) (Row r)) ys"
      by simp
    from renderRows_step [OF h, of r2 zs, unfolded assms(2) [symmetric]]
    show "renderRows E v hook (xs @ r1 # ys @ r2 # zs) w =
         (case RenderPage E v (rowOutputPath v hook r1) (Row r2) (files w1) of
            (Some e, f') \<Rightarrow>
              (Some (ErrorExit (''Failed to render page at '' @ rowOutputPath v hook r1) e),
               w1\<lparr>trace := trace w1 @ [Rendered v (rowOutputPath v hook r1) (Row r2)],
                   files := f'\<rparr>)
          | (None, f') \<Rightarrow>
              renderRows E v hook zs
                (w1\<lparr>trace := trace w1 @ [Rendered v (rowOutputPath v hook r1) (Row r2)],
                    files := f'\<rparr>))"
      by simp
  qed
  show "(\<forall>p d f. fst (RenderPage E v p d f) = None) \<longrightarrow>
       fst (renderView E v (xs @ r1 # ys @ r2 # zs) w) = None \<and>
       trace (snd (renderView E v (xs @ r1 # ys @ r2 # zs) w)) =
         trace w @ map (\<lambda>r. Rendered v (rowOutputPath v hook r) (Row r)) xs @
         Rendered v (rowOutputPath v hook r1) (Row r1) #
         map (\<lambda>r. Rendered v (rowOutputPath v hook r) (Row r)) ys @
         Rendered v (rowOutputPath v hook r1) (Row r2) #
         map (\<lambda>r. Rendered v (rowOutputPath v hook r) (Row r)) zs"
  proof (intro impI)
    assume a: "\<forall>p d f. fst (RenderPage E v p d f) = None"
    then have n: "fst (renderRows E v hook (xs @ r1 # ys @ r2 # zs) w) = None"
      by (rule renderRows_all_succeed)
    from renderRows_trace_success [OF n] n assms(2)
    show "fst (renderView E v (xs @ r1 # ys @ r2 # zs) w) = None \<and>
       trace (snd (renderView E v (xs @ r1 # ys @ r2 # zs) w)) =
         trace w @ map (\<lambda>r. Rendered v (rowOutputPath v hook r) (Row r)) xs @
         Rendered v (rowOutputPath v hook r1) (Row r1) #
         map (\<lambda>r. Rendered v (rowOutputPath v hook r) (Row r)) ys @
         Rendered v (rowOutputPath v hook r1) (Row r2) #
         map (\<lambda>r. Rendered v (rowOutputPath v hook r) (Row r)) zs"
      by (simp add: rv)
  qed
qed

lemma rowX_rowX2: "rowX \<noteq> rowX2"
proof
  assume "rowX = rowX2"
  then have "rowX ''title'' = rowX2 ''title''" by simp
  then show False by (simp add: rowX_def rowX2_def cell_def)
qed

lemma exampleEnv_RenderPage:
  "RenderPage (exampleEnv rows) v p d f = (None, AList.update p (Regular (pageOf d)) f)"
  by (simp add: exampleEnv_def)

text \<open>
  Two rows with the slug \<^verbatim>\<open>x\<close> and different titles: the first is rendered, then
  the second with the same path, and the loop succeeds.
\<close>

theorem collision_not_detected_witness:
  "MultipageVariableHook postsView = Some ''slug'' \<and>
   rowOutputPath postsView ''slug'' rowX = rowOutputPath postsView ''slug'' rowX2 \<and>
   fst (renderView (exampleEnv [rowX, rowX2]) postsView [rowX] exampleWorld) = None \<and>
   RenderPage (exampleEnv [rowX, rowX2]) postsView ''site/posts/x.html'' (Row rowX2)
       (files (snd (renderView (exampleEnv [rowX, rowX2]) postsView [rowX] exampleWorld))) =
     (None,
      AList.update ''site/posts/x.html'' (Regular ''Second'')
        (files (snd (renderView (exampleEnv [rowX, rowX2]) postsView [rowX] exampleWorld)))) \<and>
   fst (renderView (exampleEnv [rowX, rowX2]) postsView [rowX, rowX2] exampleWorld) = None \<and>
   trace (snd (renderView (exampleEnv [rowX, rowX2]) postsView [rowX, rowX2] exampleWorld)) =
     [Rendered postsView ''site/posts/x.html'' (Row rowX),
      Rendered postsView ''site/posts/x.html'' (Row rowX2)]"
proof -
  let ?E = "exampleEnv [rowX, rowX2]"
  have e: "rowOutputPath postsView ''slug'' rowX = rowOutputPath postsView ''slug'' rowX2"
    by (simp add: postsView_paths)
  note t = collision_not_detected [OF postsView_hook e, of ?E exampleWorld "[rowX, rowX2]"
      "[]" "[]" "[]"]
  from t have b: "renderView ?E postsView [] exampleWorld = (None, exampleWorld)" by blast
  from t b have "renderView ?E postsView ([] @ rowX # []) exampleWorld =
         (case RenderPage ?E postsView (rowOutputPath postsView ''slug'' rowX) (Row rowX)
                 (files exampleWorld) of
            (Some e, f') \<Rightarrow>
              (Some (ErrorExit (''Failed to render page at '' @
                       rowOutputPath postsView ''slug'' rowX) e),
               exampleWorld\<lparr>trace := trace exampleWorld @
                     [Rendered postsView (rowOutputPath postsView ''slug'' rowX) (Row rowX)],
                   files := f'\<rparr>)
          | (None, f') \<Rightarrow>
              renderView ?E postsView []
                (exampleWorld\<lparr>trace := trace exampleWorld @
                     [Rendered postsView (rowOutputPath postsView ''slug'' rowX) (Row rowX)],
                    files := f'\<rparr>))"
    by blast
  with t have one: "renderView ?E postsView [rowX] exampleWorld =
      (None, exampleWorld\<lparr>trace := [Rendered postsView ''site/posts/x.html'' (Row rowX)],
         files := AList.update ''site/posts/x.html'' (Regular (pageOf (Row rowX)))
                    (files exampleWorld)\<rparr>)"
    by (simp add: postsView_paths exampleEnv_RenderPage exampleWorld_trace)
  have pg: "pageOf (Row rowX2) = ''Second''"
    by (simp add: pageOf_def rowX2_def index_def cell_def)
  from t one have two: "renderView ?E postsView [rowX, rowX2] exampleWorld =
      (None, exampleWorld\<lparr>trace := [Rendered postsView ''site/posts/x.html'' (Row rowX),
             Rendered postsView ''site/posts/x.html'' (Row rowX2)],
         files := AList.update ''site/posts/x.html'' (Regular ''Second'')
                    (AList.update ''site/posts/x.html'' (Regular (pageOf (Row rowX)))
                       (files exampleWorld))\<rparr>)"
    by (simp add: postsView_paths exampleEnv_RenderPage pg)
  from one two show ?thesis
    by (simp add: postsView_hook postsView_paths exampleEnv_RenderPage pg)
qed

text \<open>
  C1 as the claim words it has the build fail on two rows with one output path. With
  the two rows of slug \<^verbatim>\<open>x\<close> the whole command returns nil, and the page that
  the stand-in renderer wrote for the first row has been replaced by the page of the
  second.
\<close>

theorem collision_counterexample:
  "rowX \<noteq> rowX2 \<and>
   rowOutputPath postsView ''slug'' rowX = rowOutputPath postsView ''slug'' rowX2 \<and>
   fst (buildCmd (exampleEnv [rowX, rowX2]) exampleWorld) = None \<and>
   map_of (files (snd (buildCmd (exampleEnv [rowX, rowX2]) exampleWorld))) ''site/posts/x.html'' =
     Some (Regular ''Second'')"
proof -
  have "fst (buildCmd (exampleEnv [rowX, rowX2]) exampleWorld) = None"
    by code_simp
  moreover have "map_of (files (snd (buildCmd (exampleEnv [rowX, rowX2]) exampleWorld)))
      ''site/posts/x.html'' = Some (Regular ''Second'')"
    by code_simp
  ultimately show ?thesis
    using rowX_rowX2 by (simp add: postsView_paths)
qed

text \<open>
  C2, as the code has it. A row without the column of the multipage variable reads as
  the empty string: its output path is \<^verbatim>\<open>site/\<close> followed by the pattern with
  the first token removed. The row is rendered like every other row: after rows that
  have all been rendered it is handed to \<^verbatim>\<open>RenderPage\<close> with that path; the
  loop fails there exactly when this call fails, with the error of the call, and
  otherwise goes on with the rows that follow, each decided by its own call in the
  same way. So a failure of the loop is always the failure of a call of
  \<^verbatim>\<open>RenderPage\<close>, never the missing column, and when the loop succeeds every row
  has had its call, the row without the column among them.
\<close>

theorem missing_column_renders_empty:
  assumes "MultipageVariableHook v = Some hook" and "r hook = None"
  shows "rowOutputPath v hook r =
           ''site/'' @ Replace1 (Output (ViewConfig v)) (placeholder hook) [] \<and>
    (\<forall>w0. renderView E v [] w0 = (None, w0)) \<and>
    (\<forall>rs1 rs2 w1.
       renderView E v rs1 w = (None, w1) \<longrightarrow>
       renderView E v (rs1 @ r # rs2) w =
         (case RenderPage E v
                 (''site/'' @ Replace1 (Output (ViewConfig v)) (placeholder hook) [])
                 (Row r) (files w1) of
            (Some e, f') \<Rightarrow>
              (Some (ErrorExit (''Failed to render page at '' @
                       ''site/'' @ Replace1 (Output (ViewConfig v)) (placeholder hook) []) e),
               w1\<lparr>trace := trace w1 @
                     [Rendered v
                        (''site/'' @ Replace1 (Output (ViewConfig v)) (placeholder hook) [])
                        (Row r)],
                   files := f'\<rparr>)
          | (None, f') \<Rightarrow>
              renderView E v rs2
                (w1\<lparr>trace := trace w1 @
                     [Rendered v
                        (''site/'' @ Replace1 (Output (ViewConfig v)) (placeholder hook) [])
                        (Row r)],
                    files := f'\<rparr>))) \<and>
    (\<forall>rs1 q rs2 w1.
       renderView E v rs1 w = (None, w1) \<longrightarrow>
       renderView E v (rs1 @ q # rs2) w =
         (case RenderPage E v (rowOutputPath v hook q) (Row q) (files w1) of
            (Some e, f') \<Rightarrow>
              (Some (ErrorExit (''Failed to render page at '' @ rowOutputPath v hook q) e),
               w1\<lparr>trace := trace w1 @ [Rendered v (rowOutputPath v hook q) (Row q)],
                   files := f'\<rparr>)
          | (None, f') \<Rightarrow>
              renderView E v rs2
                (w1\<lparr>trace := trace w1 @ [Rendered v (rowOutputPath v hook q) (Row q)],
                    files := f'\<rparr>))) \<and>
    (\<forall>x w'. renderView E v rs w = (Some x, w') \<longrightarrow>
       (\<exists>rs1 q rs2 w1 e f'.
          rs = rs1 @ q # rs2 \<and> renderView E v rs1 w = (None, w1) \<and>
          RenderPage E v (rowOutputPath v hook q) (Row q) (files w1) = (Some e, f') \<and>
          x = ErrorExit (''Failed to render page at '' @ rowOutputPath v hook q) e \<and>
          w' = w1\<lparr>trace := trace w1 @ [Rendered v (rowOutputPath v hook q) (Row q)],
                   files := f'\<rparr>)) \<and>
    (\<forall>rs1 rs2.
       fst (renderView E v (rs1 @ r # rs2) w) = None \<longrightarrow>
       trace (snd (renderView E v (rs1 @ r # rs2) w)) =
         trace w @ map (\<lambda>q. Rendered v (rowOutputPath v hook q) (Row q)) rs1 @
         Rendered v (''site/'' @ Replace1 (Output (ViewConfig v)) (placeholder hook) []) (Row r) #
         map (\<lambda>q. Rendered v (rowOutputPath v hook q) (Row q)) rs2) \<and>
    ((\<forall>p d f. fst (RenderPage E v p d f) = None) \<and> r \<in> set rs \<longrightarrow>
       fst (renderView E v rs w) = None \<and>
       Rendered v (''site/'' @ Replace1 (Output (ViewConfig v)) (placeholder hook) []) (Row r)
         \<in> set (trace (snd (renderView E v rs w))))"
proof (intro conjI)
  note rv = renderView_hook [OF assms(1)]
  show p: "rowOutputPath v hook r =
      ''site/'' @ Replace1 (Output (ViewConfig v)) (placeholder hook) []"
    using assms(2) by (simp add: rowOutputPath_def siteDir_def index_def)
  show "\<forall>w0. renderView E v [] w0 = (None, w0)"
    by (simp add: rv)
  show g: "\<forall>rs1 q rs2 w1.
       renderView E v rs1 w = (None, w1) \<longrightarrow>
       renderView E v (rs1 @ q # rs2) w =
         (case RenderPage E v (rowOutputPath v hook q) (Row q) (files w1) of
            (Some e, f') \<Rightarrow>
              (Some (ErrorExit (''Failed to render page at '' @ rowOutputPath v hook q) e),
               w1\<lparr>trace := trace w1 @ [Rendered v (rowOutputPath v hook q) (Row q)],
                   files := f'\<rparr>)
          | (None, f') \<Rightarrow>
              renderView E v rs2
                (w1\<lparr>trace := trace w1 @ [Rendered v (rowOutputPath v hook q) (Row q)],
                    files := f'\<rparr>))"
    unfolding rv using renderRows_step [of E v hook _ w] by blast
  show "\<forall>rs1 rs2 w1.
       renderView E v rs1 w = (None, w1) \<longrightarrow>
       renderView E v (rs1 @ r # rs2) w =
         (case RenderPage E v
                 (''site/'' @ Replace1 (Output (ViewConfig v)) (placeholder hook) [])
                 (Row r) (files w1) of
            (Some e, f') \<Rightarrow>
              (Some (ErrorExit (''Failed to render page at '' @
                       ''site/'' @ Replace1 (Output (ViewConfig v)) (placeholder hook) []) e),
               w1\<lparr>trace := trace w1 @
                     [Rendered v
                        (''site/'' @ Replace1 (Output (ViewConfig v)) (placeholder hook) [])
                        (Row r)],
                   files := f'\<rparr>)
          | (None, f') \<Rightarrow>
              renderView E v rs2
                (w1\<lparr>trace := trace w1 @
                     [Rendered v
                        (''site/'' @ Replace1 (Output (ViewConfig v)) (placeholder hook) [])
                        (Row r)],
                    files := f'\<rparr>))"
    using g [rule_format, of _ _ r] unfolding p by blast
  show "\<forall>x w'. renderView E v rs w = (Some x, w') \<longrightarrow>
       (\<exists>rs1 q rs2 w1 e f'.
          rs = rs1 @ q # rs2 \<and> renderView E v rs1 w = (None, w1) \<and>
          RenderPage E v (rowOutputPath v hook q) (Row q) (files w1) = (Some e, f') \<and>
          x = ErrorExit (''Failed to render page at '' @ rowOutputPath v hook q) e \<and>
          w' = w1\<lparr>trace := trace w1 @ [Rendered v (rowOutputPath v hook q) (Row q)],
                   files := f'\<rparr>)"
    unfolding rv using renderRows_genuine [of E v hook rs w] by blast
  show "\<forall>rs1 rs2.
       fst (renderView E v (rs1 @ r # rs2) w) = None \<longrightarrow>
       trace (snd (renderView E v (rs1 @ r # rs2) w)) =
         trace w @ map (\<lambda>q. Rendered v (rowOutputPath v hook q) (Row q)) rs1 @
         Rendered v (''site/'' @ Replace1 (Output (ViewConfig v)) (placeholder hook) []) (Row r) #
         map (\<lambda>q. Rendered v (rowOutputPath v hook q) (Row q)) rs2"
    unfolding rv p [symmetric]
    using renderRows_trace_success [of E v hook _ w] by simp
  show "(\<forall>p d f. fst (RenderPage E v p d f) = None) \<and> r \<in> set rs \<longrightarrow>
       fst (renderView E v rs w) = None \<and>
       Rendered v (''site/'' @ Replace1 (Output (ViewConfig v)) (placeholder hook) []) (Row r)
         \<in> set (trace (snd (renderView E v rs w)))"
  proof (intro impI)
    assume a: "(\<forall>p d f. fst (RenderPage E v p d f) = None) \<and> r \<in> set rs"
    then have n: "fst (renderRows E v hook rs w) = None"
      using renderRows_all_succeed [of E v hook rs w] by blast
    from renderRows_rendered [OF n, of r] a n
    show "fst (renderView E v rs w) = None \<and>
       Rendered v (''site/'' @ Replace1 (Output (ViewConfig v)) (placeholder hook) []) (Row r)
         \<in> set (trace (snd (renderView E v rs w)))"
      unfolding rv p [symmetric] by simp
  qed
qed

lemma rowNoSlug_slug: "rowNoSlug ''slug'' = None"
  by (simp add: rowNoSlug_def)

text \<open>
  A row with a title and no slug, between the rows for \<^verbatim>\<open>x\<close> and \<^verbatim>\<open>y\<close>:
  after the page of \<^verbatim>\<open>x\<close> it is rendered to \<^verbatim>\<open>site/posts/.html\<close>, and the
  page of \<^verbatim>\<open>y\<close> follows.
\<close>

theorem missing_column_renders_empty_witness:
  "MultipageVariableHook postsView = Some ''slug'' \<and> rowNoSlug ''slug'' = None \<and>
   rowOutputPath postsView ''slug'' rowNoSlug = ''site/posts/.html'' \<and>
   fst (renderView (exampleEnv [rowX, rowNoSlug, rowY]) postsView [rowX] exampleWorld) = None \<and>
   fst (RenderPage (exampleEnv [rowX, rowNoSlug, rowY]) postsView ''site/posts/.html''
          (Row rowNoSlug)
          (files (snd (renderView (exampleEnv [rowX, rowNoSlug, rowY]) postsView [rowX]
                         exampleWorld)))) = None \<and>
   fst (renderView (exampleEnv [rowX, rowNoSlug, rowY]) postsView [rowX, rowNoSlug, rowY]
          exampleWorld) = None \<and>
   trace (snd (renderView (exampleEnv [rowX, rowNoSlug, rowY]) postsView
                 [rowX, rowNoSlug, rowY] exampleWorld)) =
     [Rendered postsView ''site/posts/x.html'' (Row rowX),
      Rendered postsView ''site/posts/.html'' (Row rowNoSlug),
      Rendered postsView ''site/posts/y.html'' (Row rowY)]"
proof -
  let ?E = "exampleEnv [rowX, rowNoSlug, rowY]"
  have p: "Replace1 (Output (ViewConfig postsView)) (placeholder ''slug'') [] = ''posts/.html''"
    by (simp add: postsView_def placeholder_def)
  note t = missing_column_renders_empty [of postsView "''slug''" rowNoSlug ?E exampleWorld
      "[rowX, rowNoSlug, rowY]", OF postsView_hook rowNoSlug_slug]
  have m: "rowNoSlug \<in> set [rowX, rowNoSlug, rowY]" by simp
  from t m have ok: "fst (renderView ?E postsView [rowX, rowNoSlug, rowY] exampleWorld) = None"
    using exampleEnv_renders by blast
  from t have tc: "\<forall>rs1 rs2.
       fst (renderView ?E postsView (rs1 @ rowNoSlug # rs2) exampleWorld) = None \<longrightarrow>
       trace (snd (renderView ?E postsView (rs1 @ rowNoSlug # rs2) exampleWorld)) =
         trace exampleWorld @
         map (\<lambda>q. Rendered postsView (rowOutputPath postsView ''slug'' q) (Row q)) rs1 @
         Rendered postsView
           (''site/'' @ Replace1 (Output (ViewConfig postsView)) (placeholder ''slug'') [])
           (Row rowNoSlug) #
         map (\<lambda>q. Rendered postsView (rowOutputPath postsView ''slug'' q) (Row q)) rs2"
    by blast
  from tc [rule_format, of "[rowX]" "[rowY]"] ok
  have "trace (snd (renderView ?E postsView ([rowX] @ rowNoSlug # [rowY]) exampleWorld)) =
         trace exampleWorld @
         map (\<lambda>q. Rendered postsView (rowOutputPath postsView ''slug'' q) (Row q)) [rowX] @
         Rendered postsView
           (''site/'' @ Replace1 (Output (ViewConfig postsView)) (placeholder ''slug'') [])
           (Row rowNoSlug) #
         map (\<lambda>q. Rendered postsView (rowOutputPath postsView ''slug'' q) (Row q)) [rowY]"
    by simp
  then have tr: "trace (snd (renderView ?E postsView [rowX, rowNoSlug, rowY] exampleWorld)) =
     [Rendered postsView ''site/posts/x.html'' (Row rowX),
      Rendered postsView ''site/posts/.html'' (Row rowNoSlug),
      Rendered postsView ''site/posts/y.html'' (Row rowY)]"
    by (simp add: p postsView_paths exampleWorld_trace)
  have one: "fst (renderView ?E postsView [rowX] exampleWorld) = None"
    unfolding renderView_hook [OF postsView_hook]
    by (rule renderRows_all_succeed) (simp add: exampleEnv_renders)
  from ok tr one show ?thesis
    by (simp add: postsView_hook rowNoSlug_slug postsView_paths exampleEnv_renders)
qed

text \<open>
  C2 as the claim words it has the build step of the view fail. With the row that has
  no slug among the rows the whole command returns nil; the page of that row is
  written to \<^verbatim>\<open>site/posts/.html\<close>, and the row after it has its page too.
\<close>

theorem missing_column_counterexample:
  "rowNoSlug ''slug'' = None \<and>
   fst (buildCmd (exampleEnv [rowX, rowNoSlug, rowY]) exampleWorld) = None \<and>
   map_of (files (snd (buildCmd (exampleEnv [rowX, rowNoSlug, rowY]) exampleWorld)))
     ''site/posts/.html'' = Some (Regular ''Lost'') \<and>
   map_of (files (snd (buildCmd (exampleEnv [rowX, rowNoSlug, rowY]) exampleWorld)))
     ''site/posts/y.html'' = Some (Regular ''Third'')"
proof -
  have "fst (buildCmd (exampleEnv [rowX, rowNoSlug, rowY]) exampleWorld) = None"
    by code_simp
  moreover have "map_of (files (snd (buildCmd (exampleEnv [rowX, rowNoSlug, rowY]) exampleWorld)))
     ''site/posts/.html'' = Some (Regular ''Lost'')"
    by code_simp
  moreover have "map_of (files (snd (buildCmd (exampleEnv [rowX, rowNoSlug, rowY]) exampleWorld)))
     ''site/posts/y.html'' = Some (Regular ''Third'')"
    by code_simp
  ultimately show ?thesis
    by (simp add: rowNoSlug_slug)
qed

subsection \<open>The configuration file and the site directory\<close>

lemma loadConfig_missing:
  assumes "wd w = Inr d" and "Stat (files w) (d @ ''/snowman.yaml'') = Inl e"
  shows "loadConfig E w =
     Inl (ErrorExit ''Unable to locate snowman.yaml in the current working directory.'' e)"
  using assms by (simp add: loadConfig_def)

text \<open>
  C6. When \<^verbatim>\<open>snowman.yaml\<close> is not found in the working directory, the command
  returns through \<^verbatim>\<open>utils.ErrorExit\<close> with the message that the configuration
  cannot be located (the configuration error of the spec), the exit status is not
  zero, and the world is as it was: no directory has been created, no file written,
  nothing printed or queried.
\<close>

theorem missing_config_fails_first:
  assumes "wd w = Inr d" and "Stat (files w) (d @ ''/snowman.yaml'') = Inl e"
  shows "buildCmd E w =
           (Some (ErrorExit ''Unable to locate snowman.yaml in the current working directory.'' e),
            w) \<and>
         exitStatus (fst (buildCmd E w)) \<noteq> 0 \<and>
         files (snd (buildCmd E w)) = files w"
  using loadConfig_missing [OF assms, of E]
  by (simp add: buildCmd_def exitStatus_def)

text \<open>The example directory without any file: \<^verbatim>\<open>site\<close> is not created.\<close>

theorem missing_config_fails_first_witness:
  "wd (exampleWorld\<lparr>files := []\<rparr>) = Inr ''/home/site'' \<and>
   Stat (files (exampleWorld\<lparr>files := []\<rparr>)) (''/home/site'' @ ''/snowman.yaml'') = Inl ENOENT \<and>
   buildCmd (exampleEnv []) (exampleWorld\<lparr>files := []\<rparr>) =
     (Some (ErrorExit ''Unable to locate snowman.yaml in the current working directory.'' ENOENT),
      exampleWorld\<lparr>files := []\<rparr>) \<and>
   exitStatus (fst (buildCmd (exampleEnv []) (exampleWorld\<lparr>files := []\<rparr>))) \<noteq> 0 \<and>
   Stat (files (snd (buildCmd (exampleEnv []) (exampleWorld\<lparr>files := []\<rparr>)))) ''site'' = Inl ENOENT"
proof -
  have a: "wd (exampleWorld\<lparr>files := []\<rparr>) = Inr ''/home/site''"
    by (simp add: exampleWorld_def)
  have b: "Stat (files (exampleWorld\<lparr>files := []\<rparr>)) (''/home/site'' @ ''/snowman.yaml'') = Inl ENOENT"
    by (simp add: Stat_def)
  from missing_config_fails_first [OF a b, of "exampleEnv []"] a b
  show ?thesis by (simp add: Stat_def exitStatus_def)
qed

lemma Mkdir_site_exists:
  "Stat f ''site'' = Inr n \<Longrightarrow> Mkdir ''site'' f = (Some EEXIST, f)"
  by (simp add: Mkdir_def)

lemma Dir_site: "Dir ''site'' = ''.''"
  by (simp add: Dir_def Clean_def upToLastSlash_def)

lemma Mkdir_site_fresh:
  "Stat f ''site'' = Inl e \<Longrightarrow> Mkdir ''site'' f = (None, f @ [(''site'', Directory)])"
  by (simp add: Mkdir_def Dir_site) (simp add: Stat_def)

text \<open>
  C7. When \<^verbatim>\<open>site\<close> exists before the build, whatever it is, the command fails
  and leaves the world as it was; with a valid configuration the failure is that of
  \<^verbatim>\<open>os.Mkdir\<close>, under the message \<^verbatim>\<open>Failed to create site directory.\<close> When
  \<^verbatim>\<open>site\<close> does not exist and the configuration is valid, the directory is
  created, empty, and the rest of the build runs with it.
\<close>

theorem site_directory_fresh:
  "(\<forall>n. Stat (files w) ''site'' = Inr n \<longrightarrow>
      (\<exists>x. buildCmd E w = (Some x, w)) \<and>
      (\<forall>c. loadConfig E w = Inr c \<longrightarrow>
         buildCmd E w = (Some (ErrorExit ''Failed to create site directory.'' EEXIST), w))) \<and>
   (\<forall>e c. Stat (files w) ''site'' = Inl e \<and> loadConfig E w = Inr c \<longrightarrow>
      buildCmd E w = buildSite E c (w\<lparr>files := files w @ [(''site'', Directory)]\<rparr>))"
proof (intro conjI allI impI)
  fix n
  assume s: "Stat (files w) ''site'' = Inr n"
  show "\<exists>x. buildCmd E w = (Some x, w)"
    using Mkdir_site_exists [OF s]
    by (cases "loadConfig E w") (simp_all add: buildCmd_def)
  fix c
  assume "loadConfig E w = Inr c"
  then show "buildCmd E w = (Some (ErrorExit ''Failed to create site directory.'' EEXIST), w)"
    using Mkdir_site_exists [OF s] by (simp add: buildCmd_def)
next
  fix e c
  assume "Stat (files w) ''site'' = Inl e \<and> loadConfig E w = Inr c"
  then show "buildCmd E w = buildSite E c (w\<lparr>files := files w @ [(''site'', Directory)]\<rparr>)"
    using Mkdir_site_fresh [of "files w" e] by (simp add: buildCmd_def)
qed

lemma exampleWorld_config:
  "loadConfig (exampleEnv []) exampleWorld = Inr \<lparr>Endpoint = ''https://example.org/sparql''\<rparr>"
  "loadConfig (exampleEnv []) (exampleWorld\<lparr>files := (''site'', Regular ''old'') # exampleFiles\<rparr>) =
     Inr \<lparr>Endpoint = ''https://example.org/sparql''\<rparr>"
  by code_simp+

text \<open>
  The example directory with a file named \<^verbatim>\<open>site\<close> in it, and as it is (without
  \<^verbatim>\<open>site\<close>).
\<close>

theorem site_directory_fresh_witness:
  "Stat (files (exampleWorld\<lparr>files := (''site'', Regular ''old'') # exampleFiles\<rparr>)) ''site'' =
     Inr (Regular ''old'') \<and>
   buildCmd (exampleEnv []) (exampleWorld\<lparr>files := (''site'', Regular ''old'') # exampleFiles\<rparr>) =
     (Some (ErrorExit ''Failed to create site directory.'' EEXIST),
      exampleWorld\<lparr>files := (''site'', Regular ''old'') # exampleFiles\<rparr>) \<and>
   Stat (files exampleWorld) ''site'' = Inl ENOENT \<and>
   buildCmd (exampleEnv []) exampleWorld =
     buildSite (exampleEnv []) \<lparr>Endpoint = ''https://example.org/sparql''\<rparr>
       (exampleWorld\<lparr>files := files exampleWorld @ [(''site'', Directory)]\<rparr>)"
proof -
  let ?w = "exampleWorld\<lparr>files := (''site'', Regular ''old'') # exampleFiles\<rparr>"
  have s1: "Stat (files ?w) ''site'' = Inr (Regular ''old'')"
    by (simp add: Stat_def)
  have c1: "loadConfig (exampleEnv []) ?w = Inr \<lparr>Endpoint = ''https://example.org/sparql''\<rparr>"
    by (rule exampleWorld_config)
  have s2: "Stat (files exampleWorld) ''site'' = Inl ENOENT"
    by (simp add: Stat_def exampleWorld_def exampleFiles_def)
  have c2: "loadConfig (exampleEnv []) exampleWorld =
      Inr \<lparr>Endpoint = ''https://example.org/sparql''\<rparr>"
    by (rule exampleWorld_config)
  from site_directory_fresh [of ?w "exampleEnv []"] s1 c1
  have "buildCmd (exampleEnv []) ?w =
      (Some (ErrorExit ''Failed to create site directory.'' EEXIST), ?w)"
    by blast
  moreover from site_directory_fresh [of exampleWorld "exampleEnv []"] s2 c2
  have "buildCmd (exampleEnv []) exampleWorld =
     buildSite (exampleEnv []) \<lparr>Endpoint = ''https://example.org/sparql''\<rparr>
       (exampleWorld\<lparr>files := files exampleWorld @ [(''site'', Directory)]\<rparr>)"
    by blast
  ultimately show ?thesis using s1 s2 by simp
qed

subsection \<open>One view after the other, one row after the other\<close>

lemma renderView_trace:
  "\<exists>n. trace (snd (renderView E v rs w)) =
     trace w @
     take n (case MultipageVariableHook v of
               Some hook \<Rightarrow> map (\<lambda>r. Rendered v (rowOutputPath v hook r) (Row r)) rs
             | None \<Rightarrow> [Rendered v (siteDir @ Output (ViewConfig v)) (Rows rs)])"
proof (cases "MultipageVariableHook v")
  case None
  let ?p = "siteDir @ Output (ViewConfig v)"
  obtain e w1 where c: "callRenderPage E v ?p (Rows rs) w = (e, w1)"
    by (cases "callRenderPage E v ?p (Rows rs) w")
  then have t: "trace w1 = trace w @ [Rendered v ?p (Rows rs)]"
    using callRenderPage_trace [of E v ?p "Rows rs" w] by simp
  from None c have "snd (renderView E v rs w) = w1"
    by (cases e) (simp_all add: renderView_def)
  with t None show ?thesis
    by (intro exI [of _ 1]) simp
next
  case (Some hook)
  from renderRows_trace_prefix [of rs E v hook w] obtain n where
    "trace (snd (renderRows E v hook rs w)) =
       trace w @ map (\<lambda>r. Rendered v (rowOutputPath v hook r) (Row r)) (take n rs)"
    by blast
  with Some show ?thesis
    by (intro exI [of _ n]) (simp add: renderView_def take_map)
qed

lemma renderView_trace_success:
  assumes "fst (renderView E v rs w) = None"
  shows "trace (snd (renderView E v rs w)) =
     trace w @
     (case MultipageVariableHook v of
        Some hook \<Rightarrow> map (\<lambda>r. Rendered v (rowOutputPath v hook r) (Row r)) rs
      | None \<Rightarrow> [Rendered v (siteDir @ Output (ViewConfig v)) (Rows rs)])"
proof (cases "MultipageVariableHook v")
  case None
  let ?p = "siteDir @ Output (ViewConfig v)"
  obtain e w1 where c: "callRenderPage E v ?p (Rows rs) w = (e, w1)"
    by (cases "callRenderPage E v ?p (Rows rs) w")
  then have t: "trace w1 = trace w @ [Rendered v ?p (Rows rs)]"
    using callRenderPage_trace [of E v ?p "Rows rs" w] by simp
  from None c have "snd (renderView E v rs w) = w1"
    by (cases e) (simp_all add: renderView_def)
  with t None show ?thesis by simp
next
  case (Some hook)
  with assms have "fst (renderRows E v hook rs w) = None"
    by (simp add: renderView_def)
  from renderRows_trace_success [OF this] Some show ?thesis
    by (simp add: renderView_def)
qed

lemma buildView_trace:
  "\<exists>n\<le>length (viewCalls E c v).
     trace (snd (buildView E c v w)) = trace w @ take n (viewCalls E c v)"
proof (cases "NewRepo E (Endpoint c)")
  case (Some e)
  then show ?thesis by (simp add: buildView_def viewCalls_def)
next
  case None
  let ?q = "Queried (Endpoint c) (Sparql v)"
  show ?thesis
  proof (cases "Query E (Endpoint c) (Sparql v)")
    case (Inl e)
    with None show ?thesis
      by (intro exI [of _ 1]) (simp add: buildView_def viewCalls_def logEvent_def)
  next
    case (Inr rs)
    define js where "js = (case MultipageVariableHook v of
               Some hook \<Rightarrow> map (\<lambda>r. Rendered v (rowOutputPath v hook r) (Row r)) rs
             | None \<Rightarrow> [Rendered v (siteDir @ Output (ViewConfig v)) (Rows rs)])"
    from renderView_trace [of E v rs "logEvent ?q w"] obtain n where
      n: "trace (snd (renderView E v rs (logEvent ?q w))) = trace (logEvent ?q w) @ take n js"
      unfolding js_def by blast
    have vc: "viewCalls E c v = ?q # js"
      using None Inr by (simp add: viewCalls_def js_def)
    have bv: "buildView E c v w = renderView E v rs (logEvent ?q w)"
      using None Inr by (simp add: buildView_def)
    have tk: "take (min n (length js)) js = take n js"
      by (simp add: min_def)
    have "trace (snd (buildView E c v w)) = trace w @ take (Suc (min n (length js))) (viewCalls E c v)"
      using n by (simp add: vc bv logEvent_def tk del: take_all_iff)
    moreover have "Suc (min n (length js)) \<le> length (viewCalls E c v)"
      by (simp add: vc)
    ultimately show ?thesis by blast
  qed
qed

lemma buildView_trace_success:
  assumes "fst (buildView E c v w) = None"
  shows "trace (snd (buildView E c v w)) = trace w @ viewCalls E c v"
proof (cases "NewRepo E (Endpoint c)")
  case (Some e)
  with assms show ?thesis by (simp add: buildView_def)
next
  case None
  let ?q = "Queried (Endpoint c) (Sparql v)"
  show ?thesis
  proof (cases "Query E (Endpoint c) (Sparql v)")
    case (Inl e)
    with None assms show ?thesis by (simp add: buildView_def)
  next
    case (Inr rs)
    have bv: "buildView E c v w = renderView E v rs (logEvent ?q w)"
      using None Inr by (simp add: buildView_def)
    with assms have "fst (renderView E v rs (logEvent ?q w)) = None" by simp
    from renderView_trace_success [OF this] None Inr show ?thesis
      by (simp add: bv viewCalls_def logEvent_def)
  qed
qed

lemma buildViews_trace:
  "\<exists>n. trace (snd (buildViews E c vs w)) = trace w @ take n (schedule E c vs)"
proof (induction vs arbitrary: w)
  case Nil
  then show ?case by (simp add: schedule_def)
next
  case (Cons v vs)
  obtain x w1 where b: "buildView E c v w = (x, w1)"
    by (cases "buildView E c v w")
  show ?case
  proof (cases x)
    case None
    with b have "fst (buildView E c v w) = None" by simp
    from buildView_trace_success [OF this] b
    have t1: "trace w1 = trace w @ viewCalls E c v" by simp
    from Cons.IH [of w1] obtain n where
      "trace (snd (buildViews E c vs w1)) = trace w1 @ take n (schedule E c vs)"
      by blast
    with t1 b None have "trace (snd (buildViews E c (v # vs) w)) =
        trace w @ take (length (viewCalls E c v) + n) (schedule E c (v # vs))"
      by (simp add: schedule_def)
    then show ?thesis by blast
  next
    case (Some a)
    from buildView_trace [of E c v w] b obtain n where
      "n \<le> length (viewCalls E c v)" "trace w1 = trace w @ take n (viewCalls E c v)"
      by auto
    with b Some have "trace (snd (buildViews E c (v # vs) w)) =
        trace w @ take n (schedule E c (v # vs))"
      by (simp add: schedule_def)
    then show ?thesis by blast
  qed
qed

lemma buildViews_trace_success:
  "fst (buildViews E c vs w) = None \<Longrightarrow>
   trace (snd (buildViews E c vs w)) = trace w @ schedule E c vs"
proof (induction vs arbitrary: w)
  case Nil
  then show ?case by (simp add: schedule_def)
next
  case (Cons v vs)
  obtain x w1 where b: "buildView E c v w = (x, w1)"
    by (cases "buildView E c v w")
  show ?case
  proof (cases x)
    case None
    with b have "fst (buildView E c v w) = None" by simp
    from buildView_trace_success [OF this] b
    have t1: "trace w1 = trace w @ viewCalls E c v" by simp
    from None b Cons.prems have "fst (buildViews E c vs w1) = None" by simp
    from Cons.IH [OF this] t1 b None show ?thesis
      by (simp add: schedule_def)
  next
    case (Some a)
    with b Cons.prems show ?thesis by simp
  qed
qed





subsection \<open>Every page goes below the site directory\<close>

lemma copyFn_trace: "\<exists>ps. trace (snd (copyFn x w)) = trace w @ map Printed ps"
proof -
  obtain path info e where x: "x = (path, info, e)" by (cases x)
  have b: "\<And>s. \<exists>ps. [Printed s] = map Printed ps"
  proof -
    fix s
    show "\<exists>ps. [Printed s] = map Printed ps"
      by (rule exI [of _ "[s]"]) simp
  qed
  show ?thesis
    unfolding x copyFn_def
    by (simp add: Let_def logEvent_def b split: option.split prod.split)
qed

lemma Walk_copyFn_trace: "\<exists>ps. trace (snd (Walk copyFn xs w)) = trace w @ map Printed ps"
proof (induction xs arbitrary: w)
  case Nil
  show ?case by (intro exI [of _ "[]"]) simp
next
  case (Cons x xs)
  obtain r w1 where c: "copyFn x w = (r, w1)" by (cases "copyFn x w")
  from copyFn_trace [of x w] c obtain ps where p: "trace w1 = trace w @ map Printed ps"
    by auto
  show ?case
  proof (cases r)
    case Succeeded
    from Cons.IH [of w1] obtain qs where
      "trace (snd (Walk copyFn xs w1)) = trace w1 @ map Printed qs" by blast
    with p c Succeeded have "trace (snd (Walk copyFn (x # xs) w)) = trace w @ map Printed (ps @ qs)"
      by simp
    then show ?thesis by blast
  next
    case (Returned e)
    with c p show ?thesis by auto
  next
    case Panicked
    with c p show ?thesis by auto
  qed
qed

lemma staticStep_trace: "\<exists>ps. trace (snd (staticStep w)) = trace w @ map Printed ps"
proof -
  have a: "\<exists>ps. [Printed ''Failed to locate static files. Skipping...''] = map Printed ps"
    by (intro exI [of _ "[''Failed to locate static files. Skipping...'']"]) simp
  show ?thesis
    unfolding staticStep_def CopyStatic_def
    using Walk_copyFn_trace [of "visits (files w) ''static''" w] a
    by (simp add: logEvent_def split: sum.split)
qed

lemma buildSite_trace:
  "\<exists>ps vs n. trace (snd (buildSite E c w)) = trace w @ map Printed ps @ take n (schedule E c vs)"
proof -
  obtain r w1 where s: "staticStep w = (r, w1)" by (cases "staticStep w")
  from staticStep_trace [of w] s obtain ps where p: "trace w1 = trace w @ map Printed ps"
    by auto
  have stop: "\<exists>ps vs n. trace w1 = trace w @ map Printed ps @ take n (schedule E c vs)"
    using p by (intro exI [of _ ps] exI [of _ "[]"] exI [of _ 0]) simp
  show ?thesis
  proof (cases r)
    case Succeeded
    obtain r2 layouts where d: "DiscoverIncludes (files w1) = (r2, layouts)"
      by (cases "DiscoverIncludes (files w1)")
    show ?thesis
    proof (cases r2)
      case Succeeded2: Succeeded
      show ?thesis
      proof (cases "DiscoverViews E layouts (files w1)")
        case (Inl e)
        with s Succeeded d Succeeded2 stop show ?thesis by (simp add: buildSite_def)
      next
        case (Inr vs)
        from buildViews_trace [of E c vs w1] obtain n where
          "trace (snd (buildViews E c vs w1)) = trace w1 @ take n (schedule E c vs)" by blast
        with p s Succeeded d Succeeded2 Inr show ?thesis
          by (intro exI [of _ ps] exI [of _ vs] exI [of _ n]) (simp add: buildSite_def)
      qed
    next
      case (Returned e)
      with s Succeeded d stop show ?thesis by (simp add: buildSite_def)
    next
      case Panicked
      with s Succeeded d stop show ?thesis by (simp add: buildSite_def)
    qed
  next
    case (Returned e)
    with s stop show ?thesis by (simp add: buildSite_def)
  next
    case Panicked
    with s stop show ?thesis by (simp add: buildSite_def)
  qed
qed

lemma buildCmd_trace:
  "\<exists>ps c vs n. trace (snd (buildCmd E w)) = trace w @ map Printed ps @ take n (schedule E c vs)"
proof (cases "loadConfig E w")
  case (Inl x)
  then show ?thesis
    by (intro exI [of _ "[]"] exI [of _ 0]) (simp add: buildCmd_def)
next
  case (Inr c)
  obtain e f1 where m: "Mkdir ''site'' (files w) = (e, f1)" by (cases "Mkdir ''site'' (files w)")
  show ?thesis
  proof (cases e)
    case None
    from buildSite_trace [of E c "w\<lparr>files := f1\<rparr>"] Inr m None show ?thesis
      by (simp add: buildCmd_def) blast
  next
    case (Some a)
    with Inr m show ?thesis
      by (intro exI [of _ "[]"] exI [of _ 0]) (simp add: buildCmd_def)
  qed
qed

lemma viewCalls_rendered:
  assumes "Rendered v p d \<in> set (viewCalls E c u)"
  shows "case MultipageVariableHook v of
           None \<Rightarrow> p = siteDir @ Output (ViewConfig v) \<and> (\<exists>rs. d = Rows rs)
         | Some hook \<Rightarrow> \<exists>r. d = Row r \<and> p = rowOutputPath v hook r"
  using assms
  by (auto simp: viewCalls_def split: option.splits sum.splits)

text \<open>
  C10, as the code has it. Every call of \<^verbatim>\<open>RenderPage\<close> that the command makes
  (every such call in the trace that was not there before) has an output path that
  begins with the string \<^verbatim>\<open>site/\<close>: for a view without a multipage variable the
  path is \<^verbatim>\<open>site/\<close> followed by the output pattern, for a view with one it is
  \<^verbatim>\<open>site/\<close> followed by the pattern after the substitution for a row. This is
  a property of the path as a string; pattern and value are taken as they are.
\<close>

theorem rendered_paths_begin_with_site:
  assumes "Rendered v p d \<in> set (trace (snd (buildCmd E w)))"
    and "Rendered v p d \<notin> set (trace w)"
  shows "prefix ''site/'' p \<and>
         (case MultipageVariableHook v of
            None \<Rightarrow> p = ''site/'' @ Output (ViewConfig v) \<and> (\<exists>rs. d = Rows rs)
          | Some hook \<Rightarrow>
              \<exists>r. d = Row r \<and>
                p = ''site/'' @ Replace1 (Output (ViewConfig v)) (placeholder hook)
                      (Value (index r hook)))"
proof -
  from buildCmd_trace [of E w] obtain ps c vs n where
    t: "trace (snd (buildCmd E w)) = trace w @ map Printed ps @ take n (schedule E c vs)"
    by blast
  with assms have "Rendered v p d \<in> set (take n (schedule E c vs))" by auto
  then have "Rendered v p d \<in> set (schedule E c vs)" by (rule in_set_takeD)
  then obtain u where "Rendered v p d \<in> set (viewCalls E c u)"
    by (auto simp: schedule_def)
  from viewCalls_rendered [OF this] show ?thesis
    by (cases "MultipageVariableHook v") (auto simp: siteDir_def rowOutputPath_def)
qed

text \<open>The page of the row \<^verbatim>\<open>y\<close> in the build of the example site.\<close>

theorem rendered_paths_begin_with_site_witness:
  "Rendered postsView ''site/posts/y.html'' (Row rowY) \<in>
     set (trace (snd (buildCmd (exampleEnv [rowX, rowY]) exampleWorld))) \<and>
   Rendered postsView ''site/posts/y.html'' (Row rowY) \<notin> set (trace exampleWorld) \<and>
   prefix ''site/'' ''site/posts/y.html'' \<and>
   ''site/posts/y.html'' =
     ''site/'' @ Replace1 (Output (ViewConfig postsView)) (placeholder ''slug'')
       (Value (index rowY ''slug''))"
proof -
  let ?E = "exampleEnv [rowX, rowY]"
  have v: "DiscoverViews ?E layouts f = Inr [postsView, indexView]" for layouts f
    by (simp add: exampleEnv_def)
  have n: "Rendered postsView ''site/posts/y.html'' (Row rowY) \<notin> set (trace exampleWorld)"
    by (simp add: exampleWorld_trace)
  have ok: "fst (buildCmd ?E exampleWorld) = None"
    by code_simp
  have lc: "loadConfig ?E exampleWorld = Inr exampleConfig"
    by code_simp
  have "Stat (files exampleWorld) ''site'' = Inl ENOENT"
    by (simp add: Stat_def exampleWorld_def exampleFiles_def)
  from Mkdir_site_fresh [OF this]
  have mk: "Mkdir ''site'' (files exampleWorld) = (None, files exampleWorld @ [(''site'', Directory)])" .
  define w0 where "w0 = exampleWorld\<lparr>files := files exampleWorld @ [(''site'', Directory)]\<rparr>"
  have st: "fst (staticStep w0) = Succeeded"
    unfolding w0_def by code_simp
  have di: "fst (DiscoverIncludes (files (snd (staticStep w0)))) = Succeeded"
    unfolding w0_def by code_simp
  define w1 where "w1 = snd (staticStep w0)"
  have b: "buildCmd ?E exampleWorld = buildViews ?E exampleConfig [postsView, indexView] w1"
    using st di
    by (cases "staticStep w0"; cases "DiscoverIncludes (files (snd (staticStep w0)))")
      (simp add: buildCmd_def lc mk buildSite_def v w0_def [symmetric] w1_def)
  with ok have "fst (buildViews ?E exampleConfig [postsView, indexView] w1) = None" by simp
  from buildViews_trace_success [OF this] b
  have "trace (snd (buildCmd ?E exampleWorld)) =
      trace w1 @ schedule ?E exampleConfig [postsView, indexView]" by simp
  moreover have "Rendered postsView ''site/posts/y.html'' (Row rowY) \<in>
      set (schedule ?E exampleConfig [postsView, indexView])"
    by (simp add: schedule_def viewCalls_def exampleEnv_def postsView_hook postsView_paths)
  ultimately have m: "Rendered postsView ''site/posts/y.html'' (Row rowY) \<in>
     set (trace (snd (buildCmd ?E exampleWorld)))" by simp
  from rendered_paths_begin_with_site [OF m n] m n show ?thesis
    by (simp add: postsView_hook)
qed

text \<open>
  C10 as the claim words it concludes that no page is written outside the
  \<^verbatim>\<open>site\<close> directory. With the output pattern \<^verbatim>\<open>../escape.html\<close> the command
  calls \<^verbatim>\<open>RenderPage\<close> with the path \<^verbatim>\<open>site/../escape.html\<close>: it begins with
  \<^verbatim>\<open>site/\<close>, and it leads to \<^verbatim>\<open>escape.html\<close> in the working directory, not
  below \<^verbatim>\<open>site\<close>.
\<close>

theorem rendered_path_outside_site_counterexample:
  "fst (buildCmd (escapeEnv [rowA1]) exampleWorld) = None \<and>
   Rendered escapeView ''site/../escape.html'' (Rows [rowA1]) \<in>
     set (trace (snd (buildCmd (escapeEnv [rowA1]) exampleWorld))) \<and>
   Rendered escapeView ''site/../escape.html'' (Rows [rowA1]) \<notin> set (trace exampleWorld) \<and>
   prefix ''site/'' ''site/../escape.html'' \<and>
   pathElems ''site/../escape.html'' = [''escape.html''] \<and>
   \<not> belowSite ''site/../escape.html''"
proof -
  let ?E = "escapeEnv [rowA1]"
  have v: "DiscoverViews ?E layouts f = Inr [escapeView]" for layouts f
    by (simp add: escapeEnv_def)
  have ok: "fst (buildCmd ?E exampleWorld) = None"
    by code_simp
  have lc: "loadConfig ?E exampleWorld = Inr exampleConfig"
    by code_simp
  have "Stat (files exampleWorld) ''site'' = Inl ENOENT"
    by (simp add: Stat_def exampleWorld_def exampleFiles_def)
  from Mkdir_site_fresh [OF this]
  have mk: "Mkdir ''site'' (files exampleWorld) = (None, files exampleWorld @ [(''site'', Directory)])" .
  define w0 where "w0 = exampleWorld\<lparr>files := files exampleWorld @ [(''site'', Directory)]\<rparr>"
  have st: "fst (staticStep w0) = Succeeded"
    unfolding w0_def by code_simp
  have di: "fst (DiscoverIncludes (files (snd (staticStep w0)))) = Succeeded"
    unfolding w0_def by code_simp
  define w1 where "w1 = snd (staticStep w0)"
  have b: "buildCmd ?E exampleWorld = buildViews ?E exampleConfig [escapeView] w1"
    using st di
    by (cases "staticStep w0"; cases "DiscoverIncludes (files (snd (staticStep w0)))")
      (simp add: buildCmd_def lc mk buildSite_def v w0_def [symmetric] w1_def)
  with ok have "fst (buildViews ?E exampleConfig [escapeView] w1) = None" by simp
  from buildViews_trace_success [OF this] b
  have "trace (snd (buildCmd ?E exampleWorld)) =
      trace w1 @ schedule ?E exampleConfig [escapeView]" by simp
  moreover have "Rendered escapeView ''site/../escape.html'' (Rows [rowA1]) \<in>
      set (schedule ?E exampleConfig [escapeView])"
    by (simp add: schedule_def viewCalls_def escapeEnv_def exampleEnv_def escapeView_def siteDir_def)
  ultimately have m: "Rendered escapeView ''site/../escape.html'' (Rows [rowA1]) \<in>
     set (trace (snd (buildCmd ?E exampleWorld)))" by simp
  have e: "pathElems ''site/../escape.html'' = [''escape.html'']"
    by code_simp
  have n: "\<not> belowSite ''site/../escape.html''"
    by code_simp
  from ok m e n show ?thesis
    by (simp add: exampleWorld_trace)
qed

subsection \<open>Paths: names, parents, the tree below a directory\<close>

lemma splitSlash_nonempty: "splitSlash s \<noteq> []"
  by (induction s) (auto split: list.splits)

lemma splitSlash_append:
  "splitSlash (a @ CHR ''/'' # b) = splitSlash a @ splitSlash b"
proof (induction a)
  case Nil
  show ?case by simp
next
  case (Cons c a)
  obtain x xs where s: "splitSlash a = x # xs"
    using splitSlash_nonempty [of a] by (cases "splitSlash a") auto
  with Cons show ?case by simp
qed

lemma splitSlash_name: "CHR ''/'' \<notin> set b \<Longrightarrow> splitSlash b = [b]"
  by (induction b) auto

lemma names_last:
  assumes "[] \<notin> set (splitSlash r)"
  shows "r \<noteq> [] \<and> last r \<noteq> CHR ''/''"
proof -
  have "r \<noteq> []" using assms by auto
  moreover have "last r \<noteq> CHR ''/''"
  proof
    assume l: "last r = CHR ''/''"
    with \<open>r \<noteq> []\<close> have "r = butlast r @ CHR ''/'' # []"
      by (metis append_butlast_last_id)
    then have "splitSlash r = splitSlash (butlast r) @ splitSlash []"
      using splitSlash_append [of "butlast r" "[]"] by simp
    with assms show False by simp
  qed
  ultimately show ?thesis by blast
qed

lemma upToLastSlash_name: "CHR ''/'' \<notin> set b \<Longrightarrow> upToLastSlash (u @ b) = upToLastSlash u"
proof -
  assume "CHR ''/'' \<notin> set b"
  then have "\<And>c. c \<in> set (rev b) \<Longrightarrow> c \<noteq> CHR ''/''" by auto
  then have "dropWhile (\<lambda>c. c \<noteq> CHR ''/'') (rev b @ rev u) =
      dropWhile (\<lambda>c. c \<noteq> CHR ''/'') (rev u)"
    by (rule dropWhile_append2)
  then show ?thesis by (simp add: upToLastSlash_def)
qed

lemma upToLastSlash_slash: "upToLastSlash (u @ ''/'') = u @ ''/''"
  unfolding upToLastSlash_def by simp

lemma stripSlashes_last: "r \<noteq> [] \<Longrightarrow> last r \<noteq> CHR ''/'' \<Longrightarrow> stripSlashes r = r"
  unfolding stripSlashes_def
  by (cases r rule: rev_cases) auto

lemma stripSlashes_slash: "r \<noteq> [] \<Longrightarrow> last r \<noteq> CHR ''/'' \<Longrightarrow> stripSlashes (r @ ''/'') = r"
  unfolding stripSlashes_def
  by (cases r rule: rev_cases) auto

text \<open>A path with a separator has a last name, and what stands before it.\<close>

lemma split_last_name:
  assumes "CHR ''/'' \<in> set r"
  shows "\<exists>a b. r = a @ ''/'' @ b \<and> CHR ''/'' \<notin> set b"
proof -
  let ?P = "\<lambda>c. c \<noteq> CHR ''/''"
  let ?d = "dropWhile ?P (rev r)"
  let ?t = "takeWhile ?P (rev r)"
  have "?d \<noteq> []" using assms by simp
  then have h: "hd ?d = CHR ''/''" using hd_dropWhile [of ?P "rev r"] by simp
  with \<open>?d \<noteq> []\<close> have d: "?d = CHR ''/'' # tl ?d" by (cases ?d) auto
  have "rev r = ?t @ ?d" by simp
  then have "r = rev ?d @ rev ?t" by (metis rev_append rev_rev_ident)
  with d have "r = rev (tl ?d) @ ''/'' @ rev ?t"
    by (metis append.assoc append_Cons append_Nil rev.simps(2))
  moreover have "CHR ''/'' \<notin> set (rev ?t)"
    using set_takeWhileD [of "CHR ''/''" ?P "rev r"] by auto
  ultimately show ?thesis by blast
qed

lemma Dir_name:
  assumes "x \<noteq> []" "last x \<noteq> CHR ''/''" "CHR ''/'' \<notin> set b"
  shows "Dir (x @ ''/'' @ b) = x"
proof -
  have "upToLastSlash (x @ ''/'' @ b) = x @ ''/''"
    using upToLastSlash_name [OF assms(3), of "x @ ''/''"] upToLastSlash_slash [of x] by simp
  then show ?thesis
    using assms(1,2) stripSlashes_slash [of x] by (simp add: Dir_def Clean_def)
qed

lemma mkdirParent_name:
  assumes "x \<noteq> []" "last x \<noteq> CHR ''/''" "CHR ''/'' \<notin> set b" "b \<noteq> []"
  shows "mkdirParent (x @ ''/'' @ b) = Some x"
proof -
  have "last b \<in> set b" using assms(4) by simp
  with assms(3) have "last b \<noteq> CHR ''/''" by metis
  with assms(4) have "last (x @ ''/'' @ b) \<noteq> CHR ''/''" by simp
  then have "stripSlashes (x @ ''/'' @ b) = x @ ''/'' @ b"
    using stripSlashes_last [of "x @ ''/'' @ b"] by simp
  moreover have "upToLastSlash (x @ ''/'' @ b) = x @ ''/''"
    using upToLastSlash_name [OF assms(3), of "x @ ''/''"] upToLastSlash_slash [of x] by simp
  ultimately show ?thesis
    using assms(1) by (simp add: mkdirParent_def Let_def)
qed

lemma mkdirParent_site: "mkdirParent ''site'' = None"
  by (simp add: mkdirParent_def Let_def stripSlashes_def upToLastSlash_def)

text \<open>
  A path of names below a root: its parent is the root, or a path of names below the
  root, and the parent that \<^verbatim>\<open>os.MkdirAll\<close> takes is the one of \<^verbatim>\<open>filepath.Dir\<close>.
\<close>

lemma parent_below:
  assumes "[] \<notin> set (splitSlash r)" and "x \<noteq> []" and "last x \<noteq> CHR ''/''"
  shows "(Dir (x @ ''/'' @ r) = x \<or>
          (\<exists>a. Dir (x @ ''/'' @ r) = x @ ''/'' @ a \<and> [] \<notin> set (splitSlash a) \<and>
                length a < length r)) \<and>
         mkdirParent (x @ ''/'' @ r) = Some (Dir (x @ ''/'' @ r)) \<and>
         (\<forall>y. y \<noteq> [] \<and> last y \<noteq> CHR ''/'' \<longrightarrow>
            (Dir (x @ ''/'' @ r) = x \<longrightarrow> Dir (y @ ''/'' @ r) = y) \<and>
            (\<forall>a. Dir (x @ ''/'' @ r) = x @ ''/'' @ a \<longrightarrow> Dir (y @ ''/'' @ r) = y @ ''/'' @ a))"
proof (cases "CHR ''/'' \<in> set r")
  case False
  from assms(1) have "r \<noteq> []" by auto
  have d: "Dir (y @ ''/'' @ r) = y" if "y \<noteq> []" "last y \<noteq> CHR ''/''" for y
    using Dir_name [OF that False] .
  have "x @ ''/'' @ a \<noteq> x" for a by simp
  with d [OF assms(2,3)] d mkdirParent_name [OF assms(2,3) False \<open>r \<noteq> []\<close>]
  show ?thesis by auto
next
  case True
  from split_last_name [OF True] obtain a b where
    r: "r = a @ ''/'' @ b" and b: "CHR ''/'' \<notin> set b" by blast
  from assms(1) r have s: "[] \<notin> set (splitSlash a)" "[] \<notin> set (splitSlash b)"
    using splitSlash_append [of a b] by auto
  from names_last [OF s(1)] have a: "a \<noteq> []" "last a \<noteq> CHR ''/''" by auto
  from s(2) have bn: "b \<noteq> []" by auto
  have d: "Dir (y @ ''/'' @ r) = y @ ''/'' @ a" if "y \<noteq> []" for y
  proof -
    have "y @ ''/'' @ a \<noteq> []" "last (y @ ''/'' @ a) \<noteq> CHR ''/''" using a by auto
    from Dir_name [OF this b] show ?thesis by (simp add: r)
  qed
  have m: "mkdirParent (x @ ''/'' @ r) = Some (x @ ''/'' @ a)"
  proof -
    have "x @ ''/'' @ a \<noteq> []" "last (x @ ''/'' @ a) \<noteq> CHR ''/''" using a by auto
    from mkdirParent_name [OF this b bn] show ?thesis by (simp add: r)
  qed
  have l: "length a < length r" by (simp add: r)
  have ne: "x @ ''/'' @ a \<noteq> x" by simp
  show ?thesis
  proof (intro conjI allI impI)
    show "Dir (x @ ''/'' @ r) = x \<or>
          (\<exists>a. Dir (x @ ''/'' @ r) = x @ ''/'' @ a \<and> [] \<notin> set (splitSlash a) \<and>
                length a < length r)"
      using d [OF assms(2)] s(1) l by blast
    show "mkdirParent (x @ ''/'' @ r) = Some (Dir (x @ ''/'' @ r))"
      using m d [OF assms(2)] by simp
  next
    fix y assume "y \<noteq> [] \<and> last y \<noteq> CHR ''/''" and "Dir (x @ ''/'' @ r) = x"
    with d [OF assms(2)] ne show "Dir (y @ ''/'' @ r) = y" by simp
  next
    fix y a' assume y: "y \<noteq> [] \<and> last y \<noteq> CHR ''/''" and "Dir (x @ ''/'' @ r) = x @ ''/'' @ a'"
    with d [OF assms(2)] have "a' = a" by simp
    with d [of y] y show "Dir (y @ ''/'' @ r) = y @ ''/'' @ a'" by simp
  qed
qed

subsection \<open>The copy of the static files mirrors the tree\<close>

lemma keeps_refl: "keeps g g"
  by (simp add: keeps_def)

lemma keeps_trans: "keeps g g1 \<Longrightarrow> keeps g1 g2 \<Longrightarrow> keeps g g2"
  by (simp add: keeps_def)

lemma below_set: "set (below f root) = {p \<in> fst ` set f. prefix (root @ ''/'') p}"
  by (auto simp: below_def)

lemma below_key:
  "map_of f (root @ ''/'' @ r) = Some n \<Longrightarrow> root @ ''/'' @ r \<in> set (below f root)"
proof -
  assume "map_of f (root @ ''/'' @ r) = Some n"
  then have "(root @ ''/'' @ r, n) \<in> set f" by (rule map_of_SomeD)
  then have "root @ ''/'' @ r \<in> fst ` set f" by force
  then show ?thesis by (simp add: below_set)
qed

lemma Stat_Some: "p \<noteq> ''.'' \<Longrightarrow> map_of g p = Some n \<Longrightarrow> Stat g p = Inr n"
  by (simp add: Stat_def)

lemma Stat_None: "p \<noteq> ''.'' \<Longrightarrow> map_of g p = None \<Longrightarrow> Stat g p = Inl ENOENT"
  by (simp add: Stat_def)

lemma Stat_Inr: "p \<noteq> ''.'' \<Longrightarrow> Stat g p = Inr n \<Longrightarrow> map_of g p = Some n"
  by (auto simp: Stat_def split: option.splits)

lemma Stat_Inl: "Stat g p = Inl e \<Longrightarrow> map_of g p = None"
  by (auto simp: Stat_def split: if_splits option.splits)

lemma MkdirAll_dir: "Stat g p = Inr Directory \<Longrightarrow> MkdirAll p g = (None, g)"
  by (subst MkdirAll.simps) (simp add: IsDir_def)

lemma MkdirAll_new:
  assumes "Stat g p = Inl e" and "mkdirParent p = Some q" and "MkdirAll q g = (None, g1)"
    and "Mkdir p g1 = (None, g2)"
  shows "MkdirAll p g = (None, g2)"
  by (subst MkdirAll.simps) (simp add: assms)

lemma Mkdir_new:
  assumes "p \<noteq> []" and "Stat g p = Inl e" and "Stat g (Dir p) = Inr Directory"
  shows "Mkdir p g = (None, g @ [(p, Directory)])"
  using assms by (simp add: Mkdir_def)

lemma site_not_dot: "''site/'' @ r \<noteq> ''.''" "''static/'' @ r \<noteq> ''.''"
  by simp_all

lemma site_not_static: "\<not> prefix ''site/'' (''static/'' @ r)" "\<not> prefix ''site/'' ''site''"
  "\<not> prefix ''site/'' ''static''"
  by (simp_all add: prefix_def)

lemma mirrors_mkdir:
  assumes "mirrors f g" and "map_of f (''static/'' @ a) = Some Directory"
  shows "mirrors f (g @ [(''site/'' @ a, Directory)])"
  unfolding mirrors_def
proof (intro conjI allI impI)
  fix p assume "\<not> prefix ''site/'' p"
  moreover from this have "p \<noteq> ''site/'' @ a" by (auto simp: prefix_def)
  ultimately show "map_of (g @ [(''site/'' @ a, Directory)]) p = map_of f p"
    using assms(1) by (simp add: mirrors_def map_add_def split: option.splits)
next
  fix r n assume h: "map_of (g @ [(''site/'' @ a, Directory)]) (''site/'' @ r) = Some n"
  show "n \<noteq> Irregular"
    using h assms by (auto simp: mirrors_def map_add_def split: option.splits if_splits)
  show "map_of f (''static/'' @ r) = Some n"
    using h assms by (auto simp: mirrors_def map_add_def split: option.splits if_splits)
qed

lemma keeps_snoc: "keeps g (g @ [(k, v)])"
  by (simp add: keeps_def map_add_def)

lemma parent_static_site:
  assumes "[] \<notin> set (splitSlash a)"
  shows "mkdirParent (''site/'' @ a) = Some (Dir (''site/'' @ a)) \<and>
         ((Dir (''static/'' @ a) = ''static'' \<and> Dir (''site/'' @ a) = ''site'') \<or>
          (\<exists>b. Dir (''static/'' @ a) = ''static/'' @ b \<and> Dir (''site/'' @ a) = ''site/'' @ b \<and>
               [] \<notin> set (splitSlash b) \<and> length b < length a))"
proof -
  have e: "''static'' @ ''/'' @ r = ''static/'' @ r" "''site'' @ ''/'' @ r = ''site/'' @ r" for r
    by simp_all
  have x: "''static'' \<noteq> []" "last ''static'' \<noteq> CHR ''/''" by simp_all
  have y: "''site'' \<noteq> [] \<and> last ''site'' \<noteq> CHR ''/''" by simp
  note pb = parent_below [OF assms x, unfolded e]
  from pb have c3: "\<forall>y. y \<noteq> [] \<and> last y \<noteq> CHR ''/'' \<longrightarrow>
            (Dir (''static/'' @ a) = ''static'' \<longrightarrow> Dir (y @ ''/'' @ a) = y) \<and>
            (\<forall>b. Dir (''static/'' @ a) = ''static/'' @ b \<longrightarrow> Dir (y @ ''/'' @ a) = y @ ''/'' @ b)"
    by blast
  from c3 y have c4: "(Dir (''static/'' @ a) = ''static'' \<longrightarrow> Dir (''site'' @ ''/'' @ a) = ''site'') \<and>
            (\<forall>b. Dir (''static/'' @ a) = ''static/'' @ b \<longrightarrow> Dir (''site'' @ ''/'' @ a) = ''site'' @ ''/'' @ b)"
    by blast
  have c5: "(Dir (''static/'' @ a) = ''static'' \<longrightarrow> Dir (''site/'' @ a) = ''site'') \<and>
            (\<forall>b. Dir (''static/'' @ a) = ''static/'' @ b \<longrightarrow> Dir (''site/'' @ a) = ''site/'' @ b)"
    using c4 unfolding e .
  from pb have c1: "Dir (''static/'' @ a) = ''static'' \<or>
          (\<exists>b. Dir (''static/'' @ a) = ''static/'' @ b \<and> [] \<notin> set (splitSlash b) \<and>
                length b < length a)"
    by blast
  have s: "''site'' \<noteq> []" "last ''site'' \<noteq> CHR ''/''" by simp_all
  from parent_below [OF assms s, unfolded e]
  have c2: "mkdirParent (''site/'' @ a) = Some (Dir (''site/'' @ a))" by blast
  from c1 c5 c2 show ?thesis by blast
qed

text \<open>
  \<^verbatim>\<open>os.MkdirAll\<close> on the mirror of a directory of the static tree succeeds, keeps
  what is there, and changes nothing at longer paths.
\<close>

lemma MkdirAll_mirror:
  assumes tree: "treeBelow f ''static''"
  shows "[] \<notin> set (splitSlash a) \<Longrightarrow> map_of f (''static/'' @ a) = Some Directory \<Longrightarrow>
     mirrors f g \<Longrightarrow> map_of g ''site'' = Some Directory \<Longrightarrow>
     \<exists>g'. MkdirAll (''site/'' @ a) g = (None, g') \<and> mirrors f g' \<and> keeps g g' \<and>
          map_of g' (''site/'' @ a) = Some Directory \<and>
          (\<forall>x. length (''site/'' @ a) < length x \<longrightarrow> map_of g' x = map_of g x)"
proof (induction a arbitrary: g rule: length_induct)
  case (1 a)
  note names = "1.prems"(1) and dir = "1.prems"(2) and mir = "1.prems"(3) and site = "1.prems"(4)
  show ?case
  proof (cases "map_of g (''site/'' @ a)")
    case (Some n)
    with mir have "map_of f (''static/'' @ a) = Some n" by (simp add: mirrors_def)
    with dir have "n = Directory" by simp
    with Some have sd: "map_of g (''site/'' @ a) = Some Directory" by simp
    then have "Stat g (''site/'' @ a) = Inr Directory"
      by (rule Stat_Some [OF site_not_dot(1)])
    from MkdirAll_dir [OF this] sd mir keeps_refl [of g] show ?thesis
      by blast
  next
    case None
    then have sn: "Stat g (''site/'' @ a) = Inl ENOENT"
      by (rule Stat_None [OF site_not_dot(1)])
    from below_key [of f "''static''" a Directory] dir
    have "''static/'' @ a \<in> set (below f ''static'')" by simp
    with tree have pd: "Stat f (Dir (''static/'' @ a)) = Inr Directory"
      by (simp add: treeBelow_def)
    from parent_static_site [OF names]
    have mp: "mkdirParent (''site/'' @ a) = Some (Dir (''site/'' @ a))"
      and ps: "(Dir (''static/'' @ a) = ''static'' \<and> Dir (''site/'' @ a) = ''site'') \<or>
          (\<exists>b. Dir (''static/'' @ a) = ''static/'' @ b \<and> Dir (''site/'' @ a) = ''site/'' @ b \<and>
               [] \<notin> set (splitSlash b) \<and> length b < length a)"
      by blast+
    have "\<exists>g1. MkdirAll (Dir (''site/'' @ a)) g = (None, g1) \<and> mirrors f g1 \<and> keeps g g1 \<and>
        Stat g1 (Dir (''site/'' @ a)) = Inr Directory \<and>
        (\<forall>x. length (''site/'' @ a) \<le> length x \<longrightarrow> map_of g1 x = map_of g x)"
    proof -
      from ps show ?thesis
      proof
        assume "Dir (''static/'' @ a) = ''static'' \<and> Dir (''site/'' @ a) = ''site''"
        then have d: "Dir (''site/'' @ a) = ''site''" by simp
        have ss: "Stat g ''site'' = Inr Directory" using site by (simp add: Stat_def)
        have "MkdirAll (Dir (''site/'' @ a)) g = (None, g)"
          unfolding d using ss by (rule MkdirAll_dir)
        moreover have "Stat g (Dir (''site/'' @ a)) = Inr Directory"
          unfolding d by (rule ss)
        ultimately show ?thesis using mir keeps_refl [of g] by blast
      next
        assume "\<exists>b. Dir (''static/'' @ a) = ''static/'' @ b \<and> Dir (''site/'' @ a) = ''site/'' @ b \<and>
               [] \<notin> set (splitSlash b) \<and> length b < length a"
        then obtain b where b: "Dir (''static/'' @ a) = ''static/'' @ b"
          "[] \<notin> set (splitSlash b)" "length b < length a"
          and d: "Dir (''site/'' @ a) = ''site/'' @ b" by blast
        from pd b(1) have "Stat f (''static/'' @ b) = Inr Directory" by simp
        then have sb: "map_of f (''static/'' @ b) = Some Directory"
          by (rule Stat_Inr [OF site_not_dot(2)])
        from "1.IH" b(3) have "\<forall>g. [] \<notin> set (splitSlash b) \<longrightarrow>
            map_of f (''static/'' @ b) = Some Directory \<longrightarrow> mirrors f g \<longrightarrow>
            map_of g ''site'' = Some Directory \<longrightarrow>
            (\<exists>g'. MkdirAll (''site/'' @ b) g = (None, g') \<and> mirrors f g' \<and> keeps g g' \<and>
              map_of g' (''site/'' @ b) = Some Directory \<and>
              (\<forall>x. length (''site/'' @ b) < length x \<longrightarrow> map_of g' x = map_of g x))"
          by blast
        with b(2) sb mir site obtain g1 where g1:
          "MkdirAll (''site/'' @ b) g = (None, g1)" "mirrors f g1" "keeps g g1"
          "map_of g1 (''site/'' @ b) = Some Directory"
          "\<forall>x. length (''site/'' @ b) < length x \<longrightarrow> map_of g1 x = map_of g x"
          by blast
        from g1(4) have "Stat g1 (''site/'' @ b) = Inr Directory"
          by (rule Stat_Some [OF site_not_dot(1)])
        moreover have "\<forall>x. length (''site/'' @ a) \<le> length x \<longrightarrow> map_of g1 x = map_of g x"
          using g1(5) b(3) by simp
        ultimately show ?thesis unfolding d using g1(1,2,3) by blast
      qed
    qed
    then obtain g1 where g1: "MkdirAll (Dir (''site/'' @ a)) g = (None, g1)" "mirrors f g1"
      "keeps g g1" "Stat g1 (Dir (''site/'' @ a)) = Inr Directory"
      "\<forall>x. length (''site/'' @ a) \<le> length x \<longrightarrow> map_of g1 x = map_of g x"
      by blast
    from g1(5) None have n1: "map_of g1 (''site/'' @ a) = None" by simp
    then have "Stat g1 (''site/'' @ a) = Inl ENOENT"
      by (rule Stat_None [OF site_not_dot(1)])
    from Mkdir_new [OF _ this g1(4)]
    have mk: "Mkdir (''site/'' @ a) g1 = (None, g1 @ [(''site/'' @ a, Directory)])" by simp
    from MkdirAll_new [OF sn mp g1(1) mk]
    have "MkdirAll (''site/'' @ a) g = (None, g1 @ [(''site/'' @ a, Directory)])" .
    moreover have "mirrors f (g1 @ [(''site/'' @ a, Directory)])"
      using mirrors_mkdir [OF g1(2) dir] .
    moreover have "keeps g (g1 @ [(''site/'' @ a, Directory)])"
      using keeps_trans [OF g1(3) keeps_snoc] .
    moreover have "map_of (g1 @ [(''site/'' @ a, Directory)]) (''site/'' @ a) = Some Directory"
      using n1 by (simp add: map_add_def)
    moreover have "\<forall>x. length (''site/'' @ a) < length x \<longrightarrow>
        map_of (g1 @ [(''site/'' @ a, Directory)]) x = map_of g x"
    proof (intro allI impI)
      fix x :: string assume l: "length (''site/'' @ a) < length x"
      then have "x \<noteq> ''site/'' @ a" by auto
      moreover from l g1(5) have "map_of g1 x = map_of g x" by simp
      ultimately show "map_of (g1 @ [(''site/'' @ a, Directory)]) x = map_of g x"
        by (simp add: map_add_def split: option.splits)
    qed
    ultimately show ?thesis by blast
  qed
qed

lemma Create_new_or_file:
  assumes "p \<noteq> []" and "p \<noteq> ''.''" and "Stat g (Dir p) = Inr Directory"
    and "map_of g p = None \<or> (\<exists>bs. map_of g p = Some (Regular bs))"
  shows "Create p g = (None, AList.update p (Regular []) g)"
  using assms by (auto simp: Create_def Stat_def)

lemma Copy_file:
  assumes "src \<noteq> ''.''" and "map_of g src = Some (Regular bs)"
  shows "Copy dst src g = (None, AList.update dst (Regular bs) g)"
  using assms by (simp add: Copy_def Stat_def)

lemma Open_file:
  assumes "p \<noteq> ''.''" and "map_of g p = Some n"
  shows "Open p g = None"
  using assms by (simp add: Open_def Stat_def)

lemma Replace1_static: "Replace1 (''static/'' @ r) ''static/'' ''site/'' = ''site/'' @ r"
  using Replace1_prefix [of "''static/''" "''static/'' @ r" "''site/''"] by simp

lemma static_site_differ: "''static/'' @ r \<noteq> ''site/'' @ r'"
  by simp

text \<open>The callback on a regular file of the static tree: the file is copied.\<close>

lemma copyFn_regular:
  assumes tree: "treeBelow f ''static''"
    and names: "[] \<notin> set (splitSlash r)"
    and key: "map_of f (''static/'' @ r) = Some (Regular bs)"
    and mir: "mirrors f (files w)" and site: "map_of (files w) ''site'' = Some Directory"
  shows "\<exists>w'. copyFn (''static/'' @ r, Some (Regular bs), None) w = (Succeeded, w') \<and>
           mirrors f (files w') \<and> keeps (files w) (files w') \<and>
           map_of (files w') (''site/'' @ r) = Some (Regular bs)"
proof -
  let ?g = "files w"
  let ?S = "''static/'' @ r" and ?T = "''site/'' @ r"
  from below_key [of f "''static''" r "Regular bs"] key
  have "?S \<in> set (below f ''static'')" by simp
  with tree have pd: "Stat f (Dir ?S) = Inr Directory" by (simp add: treeBelow_def)
  from parent_static_site [OF names]
  have ps: "(Dir ?S = ''static'' \<and> Dir ?T = ''site'') \<or>
          (\<exists>b. Dir ?S = ''static/'' @ b \<and> Dir ?T = ''site/'' @ b \<and>
               [] \<notin> set (splitSlash b) \<and> length b < length r)"
    by blast
  have "\<exists>g1. MkdirAll (Dir ?T) ?g = (None, g1) \<and> mirrors f g1 \<and> keeps ?g g1 \<and>
      Stat g1 (Dir ?T) = Inr Directory"
  proof -
    from ps show ?thesis
    proof
      assume "Dir ?S = ''static'' \<and> Dir ?T = ''site''"
      then have d: "Dir ?T = ''site''" by simp
      have ss: "Stat ?g ''site'' = Inr Directory" using site by (simp add: Stat_def)
      have "MkdirAll (Dir ?T) ?g = (None, ?g)"
        unfolding d using ss by (rule MkdirAll_dir)
      moreover have "Stat ?g (Dir ?T) = Inr Directory"
        unfolding d by (rule ss)
      ultimately show ?thesis using mir keeps_refl [of ?g] by blast
    next
      assume "\<exists>b. Dir ?S = ''static/'' @ b \<and> Dir ?T = ''site/'' @ b \<and>
               [] \<notin> set (splitSlash b) \<and> length b < length r"
      then obtain b where b: "Dir ?S = ''static/'' @ b" "[] \<notin> set (splitSlash b)"
        and d: "Dir ?T = ''site/'' @ b" by blast
      from pd b(1) have "Stat f (''static/'' @ b) = Inr Directory" by simp
      then have sb: "map_of f (''static/'' @ b) = Some Directory"
        by (rule Stat_Inr [OF site_not_dot(2)])
      from MkdirAll_mirror [OF tree b(2) sb mir site] obtain g1 where g1:
        "MkdirAll (''site/'' @ b) ?g = (None, g1)" "mirrors f g1" "keeps ?g g1"
        "map_of g1 (''site/'' @ b) = Some Directory"
        by blast
      from g1(4) have "Stat g1 (''site/'' @ b) = Inr Directory"
        by (rule Stat_Some [OF site_not_dot(1)])
      then show ?thesis unfolding d using g1(1,2,3) by blast
    qed
  qed
  then obtain g1 where g1: "MkdirAll (Dir ?T) ?g = (None, g1)" "mirrors f g1" "keeps ?g g1"
    "Stat g1 (Dir ?T) = Inr Directory"
    by blast
  from g1(2) site_not_static(1) [of r] key have s1: "map_of g1 ?S = Some (Regular bs)"
    by (simp add: mirrors_def)
  have op: "Open ?S g1 = None"
    using Open_file [OF site_not_dot(2) s1] .
  have t1: "map_of g1 ?T = None \<or> (\<exists>cs. map_of g1 ?T = Some (Regular cs))"
  proof (cases "map_of g1 ?T")
    case None
    then show ?thesis by simp
  next
    case (Some n)
    with g1(2) have "map_of f ?S = Some n" by (simp add: mirrors_def)
    with key have "n = Regular bs" by simp
    with Some show ?thesis by blast
  qed
  let ?g2 = "AList.update ?T (Regular []) g1"
  let ?g3 = "AList.update ?T (Regular bs) ?g2"
  have cr: "Create ?T g1 = (None, ?g2)"
    using Create_new_or_file [OF _ site_not_dot(1) g1(4) t1] by simp
  have "map_of ?g2 ?S = Some (Regular bs)"
    using s1 by (simp add: update_conv')
  from Copy_file [OF site_not_dot(2) this]
  have cp: "Copy ?T ?S ?g2 = (None, ?g3)" .
  have m3: "map_of ?g3 = (map_of g1)(?T \<mapsto> Regular bs)"
    by (simp add: update_conv')
  let ?w' = "logEvent (Printed (''Copied static file to: '' @ ?T)) (w\<lparr>files := ?g3\<rparr>)"
  have run: "copyFn (?S, Some (Regular bs), None) w = (Succeeded, ?w')"
  proof -
    define S where "S = ?S"
    define T where "T = ?T"
    have a: "Replace1 S ''static/'' ''site/'' = T"
      unfolding S_def T_def by (rule Replace1_static)
    have b: "MkdirAll (Dir T) (files w) = (None, g1)"
      unfolding T_def by (rule g1(1))
    have c: "Open S g1 = None"
      unfolding S_def by (rule op)
    have d: "Create T g1 = (None, AList.update T (Regular []) g1)"
      unfolding T_def by (rule cr)
    have e: "Copy T S (AList.update T (Regular []) g1) =
        (None, AList.update T (Regular bs) (AList.update T (Regular []) g1))"
      unfolding S_def T_def by (rule cp)
    have "copyFn (S, Some (Regular bs), None) w =
        (Succeeded, logEvent (Printed (''Copied static file to: '' @ T))
           (w\<lparr>files := AList.update T (Regular bs) (AList.update T (Regular []) g1)\<rparr>))"
      by (simp add: copyFn_def Let_def IsRegular_def a b c d e)
    then show ?thesis unfolding S_def T_def .
  qed
  have f3: "files ?w' = ?g3" by (simp add: logEvent_def)
  have mi: "mirrors f ?g3"
    unfolding mirrors_def m3
  proof (intro conjI allI impI)
    fix p assume n: "\<not> prefix ''site/'' p"
    then have "p \<noteq> ?T" by (auto simp: prefix_def)
    with n g1(2) show "((map_of g1)(?T \<mapsto> Regular bs)) p = map_of f p"
      by (simp add: mirrors_def)
  next
    fix r' n assume h: "((map_of g1)(?T \<mapsto> Regular bs)) (''site/'' @ r') = Some n"
    show "n \<noteq> Irregular"
      using h g1(2) by (auto simp: mirrors_def split: if_splits)
    show "map_of f (''static/'' @ r') = Some n"
      using h g1(2) key by (auto simp: mirrors_def split: if_splits)
  qed
  have ke: "keeps ?g ?g3"
    unfolding keeps_def m3
  proof (intro allI impI)
    fix q m assume "map_of ?g q = Some m"
    with g1(3) have q1: "map_of g1 q = Some m" by (simp add: keeps_def)
    show "((map_of g1)(?T \<mapsto> Regular bs)) q = Some m"
    proof (cases "q = ?T")
      case True
      with q1 g1(2) have "map_of f ?S = Some m" by (simp add: mirrors_def)
      with key True show ?thesis by simp
    next
      case False
      with q1 show ?thesis by simp
    qed
  qed
  have "map_of ?g3 ?T = Some (Regular bs)" by (simp add: update_conv')
  with run mi ke f3 show ?thesis by metis
qed

lemma copyFn_other:
  "\<not> IsRegular n \<Longrightarrow> copyFn (p, Some n, None) w = (Succeeded, w)"
  by (simp add: copyFn_def)

lemma below_path:
  assumes "p \<in> set (below f ''static'')"
  shows "\<exists>r n. p = ''static/'' @ r \<and> map_of f p = Some n"
proof -
  from assms have k: "p \<in> fst ` set f" and "prefix (''static'' @ ''/'') p"
    by (simp_all add: below_set)
  then obtain r where "p = (''static'' @ ''/'') @ r" by (auto simp: prefix_def)
  then have "p = ''static/'' @ r" by simp
  moreover from k have "map_of f p \<noteq> None" by (simp add: map_of_eq_None_iff)
  ultimately show ?thesis by blast
qed

lemma names_below:
  assumes "[] \<notin> set (splitSlash (''static/'' @ r))"
  shows "[] \<notin> set (splitSlash r)"
proof -
  have "splitSlash (''static'' @ CHR ''/'' # r) = splitSlash ''static'' @ splitSlash r"
    by (rule splitSlash_append)
  with assms show ?thesis by simp
qed

text \<open>The walk over the paths below \<^verbatim>\<open>static\<close>: every regular file is copied.\<close>

lemma Walk_copy:
  assumes tree: "treeBelow f ''static''"
  shows "set ps \<subseteq> set (below f ''static'') \<Longrightarrow> mirrors f (files w) \<Longrightarrow>
     map_of (files w) ''site'' = Some Directory \<Longrightarrow>
     \<exists>w'. Walk copyFn (map (\<lambda>p. (p, map_of f p, None)) ps) w = (Succeeded, w') \<and>
          mirrors f (files w') \<and> keeps (files w) (files w') \<and>
          (\<forall>r bs. ''static/'' @ r \<in> set ps \<and> map_of f (''static/'' @ r) = Some (Regular bs) \<longrightarrow>
             map_of (files w') (''site/'' @ r) = Some (Regular bs))"
proof (induction ps arbitrary: w)
  case Nil
  then show ?case by (simp add: keeps_refl)
next
  case (Cons p ps)
  from Cons.prems(1) have pb: "p \<in> set (below f ''static'')" and
    sub: "set ps \<subseteq> set (below f ''static'')" by simp_all
  from below_path [OF pb] obtain r n where p: "p = ''static/'' @ r" and n: "map_of f p = Some n"
    by blast
  from tree pb have "[] \<notin> set (splitSlash p)" by (simp add: treeBelow_def)
  with p have names: "[] \<notin> set (splitSlash r)" using names_below [of r] by simp
  have "\<exists>w1. copyFn (p, Some n, None) w = (Succeeded, w1) \<and> mirrors f (files w1) \<and>
      keeps (files w) (files w1) \<and>
      (\<forall>bs. n = Regular bs \<longrightarrow> map_of (files w1) (''site/'' @ r) = Some (Regular bs))"
  proof (cases "IsRegular n")
    case True
    then obtain bs where b: "n = Regular bs" by (cases n) (simp_all add: IsRegular_def)
    with n p have "map_of f (''static/'' @ r) = Some (Regular bs)" by simp
    from copyFn_regular [OF tree names this Cons.prems(2,3)] b p show ?thesis by auto
  next
    case False
    then have "\<forall>bs. n \<noteq> Regular bs" by (auto simp: IsRegular_def)
    with copyFn_other [OF False, of p w] Cons.prems(2) keeps_refl [of "files w"]
    show ?thesis by auto
  qed
  then obtain w1 where w1: "copyFn (p, Some n, None) w = (Succeeded, w1)" "mirrors f (files w1)"
    "keeps (files w) (files w1)"
    "\<forall>bs. n = Regular bs \<longrightarrow> map_of (files w1) (''site/'' @ r) = Some (Regular bs)"
    by blast
  from w1(3) Cons.prems(3) have s1: "map_of (files w1) ''site'' = Some Directory"
    by (simp add: keeps_def)
  from Cons.IH [OF sub w1(2) s1] obtain w' where w':
    "Walk copyFn (map (\<lambda>p. (p, map_of f p, None)) ps) w1 = (Succeeded, w')"
    "mirrors f (files w')" "keeps (files w1) (files w')"
    "\<forall>r bs. ''static/'' @ r \<in> set ps \<and> map_of f (''static/'' @ r) = Some (Regular bs) \<longrightarrow>
       map_of (files w') (''site/'' @ r) = Some (Regular bs)"
    by blast
  have run: "Walk copyFn (map (\<lambda>p. (p, map_of f p, None)) (p # ps)) w = (Succeeded, w')"
    using w1(1) w'(1) n by simp
  have ke: "keeps (files w) (files w')"
    using keeps_trans [OF w1(3) w'(3)] .
  have "\<forall>r' bs. ''static/'' @ r' \<in> set (p # ps) \<and> map_of f (''static/'' @ r') = Some (Regular bs) \<longrightarrow>
       map_of (files w') (''site/'' @ r') = Some (Regular bs)"
  proof (intro allI impI)
    fix r' bs
    assume h: "''static/'' @ r' \<in> set (p # ps) \<and> map_of f (''static/'' @ r') = Some (Regular bs)"
    show "map_of (files w') (''site/'' @ r') = Some (Regular bs)"
    proof (cases "''static/'' @ r' = p")
      case True
      with p have "r' = r" by simp
      with h n p have "n = Regular bs" by simp
      with w1(4) have "map_of (files w1) (''site/'' @ r) = Some (Regular bs)" by simp
      with w'(3) \<open>r' = r\<close> show ?thesis by (simp add: keeps_def)
    next
      case False
      with h have "''static/'' @ r' \<in> set ps" by simp
      with h w'(4) show ?thesis by blast
    qed
  qed
  with run w'(2) ke show ?case by blast
qed

lemma CopyStatic_mirror:
  assumes st: "Stat (files w) ''static'' = Inr Directory"
    and tree: "treeBelow (files w) ''static''"
    and site: "Stat (files w) ''site'' = Inr Directory"
    and fresh: "below (files w) ''site'' = []"
  shows "\<exists>w'. CopyStatic w = (Succeeded, w') \<and> mirrors (files w) (files w') \<and>
     (\<forall>r bs. map_of (files w) (''static/'' @ r) = Some (Regular bs) \<longrightarrow>
        map_of (files w') (''site/'' @ r) = Some (Regular bs))"
proof -
  let ?f = "files w"
  have m0: "mirrors ?f ?f"
    unfolding mirrors_def
  proof (intro conjI allI impI)
    fix r n assume "map_of ?f (''site/'' @ r) = Some n"
    with below_key [of ?f "''site''" r n] have "''site/'' @ r \<in> set (below ?f ''site'')" by simp
    with fresh show "n \<noteq> Irregular" "map_of ?f (''static/'' @ r) = Some n" by simp_all
  qed simp
  from site have s0: "map_of ?f ''site'' = Some Directory"
    using Stat_Inr [of "''site''" ?f Directory] by simp
  from Walk_copy [OF tree subset_refl m0 s0] obtain w' where w':
    "Walk copyFn (map (\<lambda>p. (p, map_of ?f p, None)) (below ?f ''static'')) w = (Succeeded, w')"
    "mirrors ?f (files w')"
    "\<forall>r bs. ''static/'' @ r \<in> set (below ?f ''static'') \<and>
        map_of ?f (''static/'' @ r) = Some (Regular bs) \<longrightarrow>
        map_of (files w') (''site/'' @ r) = Some (Regular bs)"
    by blast
  have v: "visits ?f ''static'' =
      (''static'', Some Directory, None) # map (\<lambda>p. (p, map_of ?f p, None)) (below ?f ''static'')"
    using st by (simp add: visits_def IsDir_def)
  have "copyFn (''static'', Some Directory, None) w = (Succeeded, w)"
    by (rule copyFn_other) (simp add: IsRegular_def)
  with w'(1) have run: "CopyStatic w = (Succeeded, w')"
    by (simp add: CopyStatic_def v)
  have "\<forall>r bs. map_of ?f (''static/'' @ r) = Some (Regular bs) \<longrightarrow>
        map_of (files w') (''site/'' @ r) = Some (Regular bs)"
  proof (intro allI impI)
    fix r bs assume k: "map_of ?f (''static/'' @ r) = Some (Regular bs)"
    with below_key [of ?f "''static''" r "Regular bs"]
    have "''static/'' @ r \<in> set (below ?f ''static'')" by simp
    with k w'(3) show "map_of (files w') (''site/'' @ r) = Some (Regular bs)" by blast
  qed
  with run w'(2) show ?thesis by blast
qed

lemma ReadFile_regular:
  "p \<noteq> ''.'' \<Longrightarrow> ReadFile g p = Inr bs \<longleftrightarrow> map_of g p = Some (Regular bs)"
  by (auto simp: ReadFile_def Stat_def split: option.splits node.splits)

lemma below_snoc:
  "\<not> prefix (root @ ''/'') k \<Longrightarrow> below (f @ [(k, v)]) root = below f root"
  by (simp add: below_def)

lemma Stat_snoc:
  "Stat f p = Inr n \<Longrightarrow> Stat (f @ [(k, v)]) p = Inr n"
  by (auto simp: Stat_def map_add_def split: option.splits if_splits)

text \<open>
  The state in which the command runs the copy: \<^verbatim>\<open>os.Mkdir\<close> has added
  \<^verbatim>\<open>site\<close> to a working directory that had neither \<^verbatim>\<open>site\<close> nor anything
  below it.
\<close>

lemma site_made:
  assumes "Stat f ''site'' = Inl ENOENT" and "below f ''site'' = []"
    and "Stat f ''static'' = Inr Directory" and "treeBelow f ''static''"
  shows "Stat (f @ [(''site'', Directory)]) ''static'' = Inr Directory \<and>
         treeBelow (f @ [(''site'', Directory)]) ''static'' \<and>
         Stat (f @ [(''site'', Directory)]) ''site'' = Inr Directory \<and>
         below (f @ [(''site'', Directory)]) ''site'' = []"
proof (intro conjI)
  show "Stat (f @ [(''site'', Directory)]) ''static'' = Inr Directory"
    using assms(3) by (rule Stat_snoc)
  have b: "below (f @ [(''site'', Directory)]) ''static'' = below f ''static''"
    by (rule below_snoc) (simp add: prefix_def)
  show "treeBelow (f @ [(''site'', Directory)]) ''static''"
    using assms(4) unfolding treeBelow_def b
    by (auto intro: Stat_snoc)
  from assms(1) have "map_of f ''site'' = None" by (rule Stat_Inl)
  then show "Stat (f @ [(''site'', Directory)]) ''site'' = Inr Directory"
    by (simp add: Stat_def map_add_def)
  have "below (f @ [(''site'', Directory)]) ''site'' = below f ''site''"
    by (rule below_snoc) (simp add: prefix_def)
  with assms(2) show "below (f @ [(''site'', Directory)]) ''site'' = []" by simp
qed

text \<open>
  C8. Without a \<^verbatim>\<open>static\<close> directory the step prints its line, changes no file
  and succeeds. With a \<^verbatim>\<open>static\<close> directory that is a tree, and the \<^verbatim>\<open>site\<close>
  directory there and empty, the copy succeeds; every regular file \<^verbatim>\<open>static/r\<close>
  can afterwards be read at \<^verbatim>\<open>site/r\<close>, the same relative path, with the same
  bytes; and outside \<^verbatim>\<open>site/\<close> no file has changed, so the sources are as they
  were. The command runs the step in such a state: when \<^verbatim>\<open>site\<close> and everything
  below it were absent, the \<^verbatim>\<open>site\<close> directory that \<^verbatim>\<open>os.Mkdir\<close> adds is
  there and empty, and the static tree is as before.
\<close>

theorem static_copy_roundtrip:
  "(Stat (files w) ''static'' = Inl ENOENT \<longrightarrow>
      staticStep w =
        (Succeeded, logEvent (Printed ''Failed to locate static files. Skipping...'') w)) \<and>
   (Stat (files w) ''static'' = Inr Directory \<and> treeBelow (files w) ''static'' \<and>
    Stat (files w) ''site'' = Inr Directory \<and> below (files w) ''site'' = [] \<longrightarrow>
      fst (staticStep w) = Succeeded \<and>
      (\<forall>r bs. ReadFile (files w) (''static/'' @ r) = Inr bs \<longrightarrow>
         ReadFile (files (snd (staticStep w))) (''site/'' @ r) = Inr bs) \<and>
      (\<forall>p. \<not> prefix ''site/'' p \<longrightarrow>
         map_of (files (snd (staticStep w))) p = map_of (files w) p)) \<and>
   (Stat (files w) ''site'' = Inl ENOENT \<and> below (files w) ''site'' = [] \<and>
    Stat (files w) ''static'' = Inr Directory \<and> treeBelow (files w) ''static'' \<longrightarrow>
      Stat (files w @ [(''site'', Directory)]) ''static'' = Inr Directory \<and>
      treeBelow (files w @ [(''site'', Directory)]) ''static'' \<and>
      Stat (files w @ [(''site'', Directory)]) ''site'' = Inr Directory \<and>
      below (files w @ [(''site'', Directory)]) ''site'' = [])"
proof (intro conjI impI)
  assume "Stat (files w) ''static'' = Inl ENOENT"
  then show "staticStep w =
      (Succeeded, logEvent (Printed ''Failed to locate static files. Skipping...'') w)"
    by (simp add: staticStep_def IsNotExist_def)
next
  assume h: "Stat (files w) ''static'' = Inr Directory \<and> treeBelow (files w) ''static'' \<and>
    Stat (files w) ''site'' = Inr Directory \<and> below (files w) ''site'' = []"
  then have "staticStep w = CopyStatic w" by (simp add: staticStep_def)
  moreover from h CopyStatic_mirror [of w] obtain w' where w': "CopyStatic w = (Succeeded, w')"
    "mirrors (files w) (files w')"
    "\<forall>r bs. map_of (files w) (''static/'' @ r) = Some (Regular bs) \<longrightarrow>
        map_of (files w') (''site/'' @ r) = Some (Regular bs)"
    by blast
  ultimately have s: "staticStep w = (Succeeded, w')" by simp
  then show "fst (staticStep w) = Succeeded" by simp
  show "\<forall>r bs. ReadFile (files w) (''static/'' @ r) = Inr bs \<longrightarrow>
         ReadFile (files (snd (staticStep w))) (''site/'' @ r) = Inr bs"
  proof (intro allI impI)
    fix r bs assume "ReadFile (files w) (''static/'' @ r) = Inr bs"
    then have "map_of (files w) (''static/'' @ r) = Some (Regular bs)"
      using ReadFile_regular [OF site_not_dot(2), of "files w" r bs] by blast
    with w'(3) have "map_of (files w') (''site/'' @ r) = Some (Regular bs)" by blast
    then have "ReadFile (files w') (''site/'' @ r) = Inr bs"
      using ReadFile_regular [OF site_not_dot(1), of "files w'" r bs] by blast
    with s show "ReadFile (files (snd (staticStep w))) (''site/'' @ r) = Inr bs" by simp
  qed
  show "\<forall>p. \<not> prefix ''site/'' p \<longrightarrow>
         map_of (files (snd (staticStep w))) p = map_of (files w) p"
    using w'(2) s by (simp add: mirrors_def)
next
  assume h: "Stat (files w) ''site'' = Inl ENOENT \<and> below (files w) ''site'' = [] \<and>
    Stat (files w) ''static'' = Inr Directory \<and> treeBelow (files w) ''static''"
  from h site_made [of "files w"]
  have m: "Stat (files w @ [(''site'', Directory)]) ''static'' = Inr Directory \<and>
      treeBelow (files w @ [(''site'', Directory)]) ''static'' \<and>
      Stat (files w @ [(''site'', Directory)]) ''site'' = Inr Directory \<and>
      below (files w @ [(''site'', Directory)]) ''site'' = []"
    by blast
  from m show "Stat (files w @ [(''site'', Directory)]) ''static'' = Inr Directory" by blast
  from m show "treeBelow (files w @ [(''site'', Directory)]) ''static''" by blast
  from m show "Stat (files w @ [(''site'', Directory)]) ''site'' = Inr Directory" by blast
  from m show "below (files w @ [(''site'', Directory)]) ''site'' = []" by blast
qed

text \<open>
  An empty directory, where nothing is copied; and the example directory after
  \<^verbatim>\<open>site\<close> has been made, where the style sheet arrives at
  \<^verbatim>\<open>site/css/main.css\<close>.
\<close>

theorem static_copy_roundtrip_witness:
  "Stat (files (exampleWorld\<lparr>files := []\<rparr>)) ''static'' = Inl ENOENT \<and>
   staticStep (exampleWorld\<lparr>files := []\<rparr>) =
     (Succeeded,
      logEvent (Printed ''Failed to locate static files. Skipping...'')
        (exampleWorld\<lparr>files := []\<rparr>)) \<and>
   Stat (files (exampleWorld\<lparr>files := exampleFiles @ [(''site'', Directory)]\<rparr>)) ''static'' =
     Inr Directory \<and>
   treeBelow (files (exampleWorld\<lparr>files := exampleFiles @ [(''site'', Directory)]\<rparr>)) ''static'' \<and>
   Stat (files (exampleWorld\<lparr>files := exampleFiles @ [(''site'', Directory)]\<rparr>)) ''site'' =
     Inr Directory \<and>
   below (files (exampleWorld\<lparr>files := exampleFiles @ [(''site'', Directory)]\<rparr>)) ''site'' = [] \<and>
   fst (staticStep (exampleWorld\<lparr>files := exampleFiles @ [(''site'', Directory)]\<rparr>)) = Succeeded \<and>
   ReadFile (files (exampleWorld\<lparr>files := exampleFiles @ [(''site'', Directory)]\<rparr>))
     ''static/css/main.css'' = Inr ''body{}'' \<and>
   ReadFile (files (snd (staticStep (exampleWorld\<lparr>files := exampleFiles @ [(''site'', Directory)]\<rparr>))))
     ''site/css/main.css'' = Inr ''body{}'' \<and>
   Stat (files exampleWorld) ''site'' = Inl ENOENT \<and> below (files exampleWorld) ''site'' = [] \<and>
   Stat (files exampleWorld) ''static'' = Inr Directory \<and> treeBelow (files exampleWorld) ''static'' \<and>
   below (files exampleWorld @ [(''site'', Directory)]) ''site'' = []"
proof -
  let ?A = "exampleWorld\<lparr>files := []\<rparr>"
  let ?B = "exampleWorld\<lparr>files := exampleFiles @ [(''site'', Directory)]\<rparr>"
  have a: "Stat (files ?A) ''static'' = Inl ENOENT"
    by (simp add: Stat_def)
  have b1: "Stat (files ?B) ''static'' = Inr Directory"
    by (simp add: Stat_def exampleFiles_def)
  have b2: "treeBelow (files ?B) ''static''"
    by code_simp
  have b3: "Stat (files ?B) ''site'' = Inr Directory"
    by (simp add: Stat_def exampleFiles_def)
  have b4: "below (files ?B) ''site'' = []"
    by code_simp
  have r: "ReadFile (files ?B) (''static/'' @ ''css/main.css'') = Inr ''body{}''"
    by (simp add: ReadFile_def Stat_def exampleFiles_def)
  from static_copy_roundtrip [of ?A] a
  have ca: "staticStep ?A =
      (Succeeded, logEvent (Printed ''Failed to locate static files. Skipping...'') ?A)"
    by blast
  from static_copy_roundtrip [of ?B] b1 b2 b3 b4
  have cb: "fst (staticStep ?B) = Succeeded"
    and cr: "\<forall>r bs. ReadFile (files ?B) (''static/'' @ r) = Inr bs \<longrightarrow>
         ReadFile (files (snd (staticStep ?B))) (''site/'' @ r) = Inr bs"
    by blast+
  from cr r have rd: "ReadFile (files (snd (staticStep ?B))) (''site/'' @ ''css/main.css'') = Inr ''body{}''"
    by blast
  have c1: "Stat (files exampleWorld) ''site'' = Inl ENOENT"
    by (simp add: Stat_def exampleWorld_def exampleFiles_def)
  have c2: "below (files exampleWorld) ''site'' = []"
    by code_simp
  have c3: "Stat (files exampleWorld) ''static'' = Inr Directory"
    by (simp add: Stat_def exampleWorld_def exampleFiles_def)
  have c4: "treeBelow (files exampleWorld) ''static''"
    by code_simp
  from static_copy_roundtrip [of exampleWorld] c1 c2 c3 c4
  have c5: "below (files exampleWorld @ [(''site'', Directory)]) ''site'' = []"
    by blast
  with a ca b1 b2 b3 b4 cb r rd c1 c2 c3 c4 show ?thesis by simp
qed

end
